theory Spec2Isabelle
  imports Main "HOL-Library.AList"
begin

section \<open>JavaScript values\<close>

text \<open>
  The values that content records and index documents are made of. An object is the list of
  its own properties in insertion order (no property is named by an array index, and no
  statement below depends on the order); numbers are only copied by this program, never
  computed with, so integers stand for them. Records are plain data objects: nothing is
  inherited for the names the program reads (\<open>_id\<close>, \<open>title\<close>, \<open>tags\<close>, \<open>categories\<close>,
  \<open>data\<close>, \<open>name\<close>, \<open>n\<close>). Strings are lists of ASCII characters.
\<close>

datatype jsval =
    Undefined
  | Null
  | Bool bool
  | Num int
  | Str string
  | Arr "jsval list"
  | Obj "(string \<times> jsval) list"

type_synonym object = "(string \<times> jsval) list"

text \<open>A thrown exception: the runtime's own \<open>TypeError\<close> and \<open>ReferenceError\<close>, or whatever
  an external collaborator (a library, the host pipeline, the remote index) throws or
  rejects with.\<close>

datatype error = TypeError | ReferenceError | External string

section \<open>The runtime, the host and the remote index\<close>

text \<open>
  What the filters rest on that is not in the repository, taken as parameters:
  the \<open>striptags\<close> package that \<open>strip\<close> is bound to; the conversion of an argument to
  an integer where floating point parsing or an object's own conversion decides it; and
  the functions every object inherits from \<open>Object.prototype\<close>, which a lookup in
  \<open>FILTER_FUNCTIONS\<close> by name also finds.

  \<open>prepareContents\<close> also reads an identifier that the module never binds: it calls
  \<open>hexo.log.warn\<close>, while \<open>hexo\<close> is only the parameter of \<open>algoliaCommand\<close> and is not
  passed on. Whether the global scope in which the module runs binds \<open>hexo\<close> to an object
  with a logger is the parameter \<open>global_hexo\<close>; where it does not, reading the identifier
  throws a \<open>ReferenceError\<close>.
\<close>

datatype eint = MInf | Fin int | PInf

record runtime =
  striptags :: "jsval list \<Rightarrow> error + jsval"
  to_integer :: "jsval \<Rightarrow> eint"
  object_prototype :: "string \<Rightarrow> jsval list \<Rightarrow> error + jsval"
  global_hexo :: bool

text \<open>Log messages are kept as the template and the values interpolated into it.\<close>

datatype message =
    No_field jsval string  \<comment> \<open>\<open>"${initialContent.title}" post has no "${fieldName}" field.\<close>\<close>
  | No_post                \<comment> \<open>\<open>There is no post to index.\<close>\<close>
  | Clearing               \<comment> \<open>\<open>Clearing index on Algolia...\<close>\<close>
  | Clear_error error      \<comment> \<open>\<open>Error has occurred during clearing index : ${error}\<close>\<close>
  | Cleared                \<comment> \<open>\<open>Index cleared.\<close>\<close>
  | Indexing               \<comment> \<open>\<open>Indexing posts on Algolia...\<close>\<close>
  | Index_error error      \<comment> \<open>\<open>Error has occurred during indexing posts : ${error}\<close>\<close>
  | Indexed nat            \<comment> \<open>\<open>${posts.length} posts indexed.\<close>\<close>

datatype event =
    Generate                  \<comment> \<open>\<open>hexo.call('generate')\<close>\<close>
  | Load                      \<comment> \<open>\<open>hexo.database.load()\<close>\<close>
  | Find_posts                \<comment> \<open>\<open>model('Post').find({published: true}).sort('date', 'asc')\<close>\<close>
  | Find_pages                \<comment> \<open>\<open>model('Page').find({}).sort('date', 'asc')\<close>\<close>
  | Init_index                \<comment> \<open>\<open>algoliasearch(...)\<close> and \<open>initIndex(...)\<close>\<close>
  | Warn message              \<comment> \<open>\<open>hexo.log.warn\<close>, on the global \<open>hexo\<close>\<close>
  | Info message              \<comment> \<open>\<open>hexo.log.info\<close>, on the parameter \<open>hexo\<close>\<close>
  | ClearObjects              \<comment> \<open>\<open>algoliaIndex.clearObjects()\<close>\<close>
  | SaveObjects "object list" \<comment> \<open>\<open>algoliaIndex.saveObjects(content)\<close>\<close>

text \<open>
  The host pipeline with its configuration, and the remote index, as the run meets them:
  an \<open>error option\<close> says whether a call fails and with what. \<open>published_posts\<close> and
  \<open>all_pages\<close> are the results of the two queries, already filtered and sorted by the store;
  \<open>config_chunkSize\<close> is \<open>None\<close> when the configuration has no chunk size.
\<close>

record hexo =
  post_fields :: "string list"
  page_fields :: "string list"
  config_chunkSize :: "int option"
  call_generate :: "error option"
  database_load :: "error option"
  published_posts :: "object list"
  all_pages :: "object list"

record algolia =
  initIndex :: "error option"
  clearObjects :: "error option"
  saveObjects :: "object list \<Rightarrow> error option"

text \<open>How a run ends: it returns through the callback, with an error or without; it runs to
  its last line, which does not call the callback; or an exception escapes it.\<close>

datatype outcome = Callback "error option" | Completed | Thrown error

section \<open>Reading values\<close>

text \<open>\<open>object[name]\<close> on a record: the own property, or \<open>undefined\<close>.\<close>

definition own_prop :: "object \<Rightarrow> string \<Rightarrow> jsval" where
  "own_prop object name = (case map_of object name of Some v \<Rightarrow> v | None \<Rightarrow> Undefined)"

text \<open>\<open>value.name\<close> on any value: reading a property of \<open>undefined\<close> or \<open>null\<close> throws;
  primitives and arrays have none of the names read here.\<close>

definition get_prop :: "jsval \<Rightarrow> string \<Rightarrow> error + jsval" where
  "get_prop v name =
     (case v of
        Undefined \<Rightarrow> Inl TypeError
      | Null \<Rightarrow> Inl TypeError
      | Obj ps \<Rightarrow> Inr (own_prop ps name)
      | _ \<Rightarrow> Inr Undefined)"

text \<open>Truthiness, as \<open>if\<close>, \<open>&&\<close>, \<open>||\<close> and \<open>!\<close> read it.\<close>

definition truthy :: "jsval \<Rightarrow> bool" where
  "truthy v =
     (case v of
        Undefined \<Rightarrow> False
      | Null \<Rightarrow> False
      | Bool b \<Rightarrow> b
      | Num n \<Rightarrow> n \<noteq> 0
      | Str s \<Rightarrow> s \<noteq> []
      | _ \<Rightarrow> True)"

text \<open>\<open>string.split(separator)\<close> with a one-character separator: the pieces between the
  separators, never an empty array.\<close>

fun push_front :: "char \<Rightarrow> string list \<Rightarrow> string list" where
  "push_front c [] = [[c]]"
| "push_front c (w # ws) = (c # w) # ws"

fun split :: "char \<Rightarrow> string \<Rightarrow> string list" where
  "split sep [] = [[]]"
| "split sep (c # cs) =
     (if c = sep then [] # split sep cs else push_front c (split sep cs))"

text \<open>\<open>array.forEach(callback)\<close> where the callback updates the variables it closes over
  (the state \<open>s\<close>) and may throw: the first exception ends the loop.\<close>

fun for_each :: "('a \<Rightarrow> 's \<Rightarrow> error + 's) \<Rightarrow> 'a list \<Rightarrow> 's \<Rightarrow> error + 's" where
  "for_each f [] s = Inr s"
| "for_each f (x # xs) s =
     (case f x s of Inl e \<Rightarrow> Inl e | Inr s' \<Rightarrow> for_each f xs s')"

text \<open>\<open>forEach\<close> and \<open>map\<close> with a callback that also writes to the log. The events written
  before an exception stay written.\<close>

fun for_each_log ::
  "('a \<Rightarrow> 's \<Rightarrow> event list \<Rightarrow> (error + 's) \<times> event list) \<Rightarrow> 'a list \<Rightarrow> 's \<Rightarrow> event list \<Rightarrow>
   (error + 's) \<times> event list" where
  "for_each_log f [] s trace = (Inr s, trace)"
| "for_each_log f (x # xs) s trace =
     (case f x s trace of
        (Inl e, trace') \<Rightarrow> (Inl e, trace')
      | (Inr s', trace') \<Rightarrow> for_each_log f xs s' trace')"

fun map_log ::
  "('a \<Rightarrow> event list \<Rightarrow> (error + 'b) \<times> event list) \<Rightarrow> 'a list \<Rightarrow> event list \<Rightarrow>
   (error + 'b list) \<times> event list" where
  "map_log f [] trace = (Inr [], trace)"
| "map_log f (x # xs) trace =
     (case f x trace of
        (Inl e, trace') \<Rightarrow> (Inl e, trace')
      | (Inr y, trace') \<Rightarrow>
          (case map_log f xs trace' of
             (Inl e, trace'') \<Rightarrow> (Inl e, trace'')
           | (Inr ys, trace'') \<Rightarrow> (Inr (y # ys), trace'')))"

section \<open>Filter registry\<close>

text \<open>The value of a string of decimal digits.\<close>

definition is_digit :: "char \<Rightarrow> bool" where
  "is_digit c = (48 \<le> (of_char c :: nat) \<and> (of_char c :: nat) \<le> 57)"

definition decimal :: "string \<Rightarrow> int" where
  "decimal s = foldl (\<lambda>n c. 10 * n + (int (of_char c) - 48)) 0 s"

text \<open>
  \<open>ToIntegerOrInfinity\<close> as \<open>substr\<close> applies it to an argument. \<open>undefined\<close> is NaN and so 0.
  The empty string is 0, and a numeral of one to fifteen decimal digits is exactly
  representable and denotes its value; every other string (sign, blanks, fraction,
  exponent, other radix, \<open>Infinity\<close>, a longer numeral) and every array or object is left to
  the runtime. The filter arguments are strings cut out of the field spec, or absent.
\<close>

definition ToIntegerOrInfinity :: "runtime \<Rightarrow> jsval \<Rightarrow> eint" where
  "ToIntegerOrInfinity rt v =
     (case v of
        Undefined \<Rightarrow> Fin 0
      | Null \<Rightarrow> Fin 0
      | Bool b \<Rightarrow> Fin (if b then 1 else 0)
      | Num n \<Rightarrow> Fin n
      | Str s \<Rightarrow>
          (if s = [] then Fin 0
           else if length s \<le> 15 \<and> list_all is_digit s then Fin (decimal s)
           else to_integer rt v)
      | _ \<Rightarrow> to_integer rt v)"

text \<open>\<open>String.prototype.substr(start, length)\<close> on the string \<open>S\<close>.\<close>

definition substr :: "runtime \<Rightarrow> string \<Rightarrow> jsval \<Rightarrow> jsval \<Rightarrow> string" where
  "substr rt S start len =
     (let size = int (length S);
          intStart =
            (case ToIntegerOrInfinity rt start of
               MInf \<Rightarrow> 0
             | PInf \<Rightarrow> size
             | Fin i \<Rightarrow> if i < 0 then max (size + i) 0 else min i size);
          intLength =
            (if len = Undefined then size
             else (case ToIntegerOrInfinity rt len of
                     MInf \<Rightarrow> 0
                   | PInf \<Rightarrow> size
                   | Fin l \<Rightarrow> min (max l 0) size));
          intEnd = min (intStart + intLength) size
      in take (nat (intEnd - intStart)) (drop (nat intStart) S))"

text \<open>The \<open>i\<close>-th actual argument of a call: \<open>undefined\<close> when fewer were passed.\<close>

definition arg :: "jsval list \<Rightarrow> nat \<Rightarrow> jsval" where
  "arg args i = (if i < length args then args ! i else Undefined)"

text \<open>\<open>truncate: function(post, start, end) { return post.substr(start, end) }\<close>.
  Only a string has a \<open>substr\<close> method.\<close>

definition truncate :: "runtime \<Rightarrow> jsval list \<Rightarrow> error + jsval" where
  "truncate rt args =
     (case arg args 0 of
        Str post \<Rightarrow> Inr (Str (substr rt post (arg args 1) (arg args 2)))
      | _ \<Rightarrow> Inl TypeError)"

definition object_prototype_functions :: "string list" where
  "object_prototype_functions =
     [''constructor'', ''hasOwnProperty'', ''isPrototypeOf'', ''propertyIsEnumerable'',
      ''toLocaleString'', ''toString'', ''valueOf'', ''__defineGetter__'',
      ''__defineSetter__'', ''__lookupGetter__'', ''__lookupSetter__'']"

text \<open>\<open>FILTER_FUNCTIONS[filterName]\<close>: \<open>None\<close> when the lookup yields nothing that can be
  applied (\<open>undefined\<close>, or the object that \<open>__proto__\<close> yields).\<close>

definition FILTER_FUNCTIONS :: "runtime \<Rightarrow> string \<Rightarrow> (jsval list \<Rightarrow> error + jsval) option" where
  "FILTER_FUNCTIONS rt filterName =
     (if filterName = ''strip'' then Some (striptags rt)
      else if filterName = ''truncate'' then Some (truncate rt)
      else if filterName \<in> set object_prototype_functions then Some (object_prototype rt filterName)
      else None)"

section \<open>Helpers\<close>

text \<open>\<open>pick\<close>: the own properties of \<open>object\<close> named in \<open>attributes\<close>, in that order.\<close>

definition pick :: "object \<Rightarrow> string list \<Rightarrow> object" where
  "pick object attributes =
     foldl (\<lambda>newObject attribute.
              case map_of object attribute of
                Some v \<Rightarrow> AList.update attribute v newObject
              | None \<Rightarrow> newObject)
       [] attributes"

definition toUpperCase :: "char \<Rightarrow> char" where
  "toUpperCase c =
     (if 97 \<le> (of_char c :: nat) \<and> (of_char c :: nat) \<le> 122
      then char_of ((of_char c :: nat) - 32) else c)"

text \<open>\<open>upperFirst\<close>: \<open>string.charAt(0).toUpperCase() + string.slice(1)\<close>.\<close>

definition upperFirst :: "string \<Rightarrow> string" where
  "upperFirst string = (case string of [] \<Rightarrow> [] | c # cs \<Rightarrow> toUpperCase c # cs)"

definition getBasicFields :: "string list \<Rightarrow> string list" where
  "getBasicFields fields' = filter (\<lambda>field. CHR '':'' \<notin> set field) fields'"

definition getFieldsWithFilters :: "string list \<Rightarrow> string list" where
  "getFieldsWithFilters fields' = filter (\<lambda>field. CHR '':'' \<in> set field) fields'"

section \<open>Batcher\<close>

text \<open>
  \<open>splitIntoChunks\<close> copies its argument and then splices the copy in place, so arrays live
  in a store: an address is an index into the list of all arrays allocated so far, and a new
  array is allocated at the end.
\<close>

type_synonym 'a heap = "'a list list"

text \<open>\<open>array.slice(0)\<close>: a new array with the same elements.\<close>

definition slice0 :: "'a heap \<Rightarrow> nat \<Rightarrow> nat \<times> 'a heap" where
  "slice0 h array = (length h, h @ [h ! array])"

text \<open>\<open>array.splice(0, deleteCount)\<close>: removes the first \<open>deleteCount\<close> elements, clamped
  to between zero and the length, from the array in place and returns them.\<close>

definition splice0 :: "'a heap \<Rightarrow> nat \<Rightarrow> int \<Rightarrow> 'a list \<times> 'a heap" where
  "splice0 h array deleteCount =
     (let len = int (length (h ! array));
          actualDeleteCount = nat (min (max deleteCount 0) len)
      in (take actualDeleteCount (h ! array), h[array := drop actualDeleteCount (h ! array)]))"

text \<open>The \<open>while (newArrays.length)\<close> loop. \<open>None\<close> is a loop that never ends.\<close>

partial_function (option) chunk_loop ::
  "'a heap \<Rightarrow> nat \<Rightarrow> int \<Rightarrow> 'a list list \<Rightarrow> ('a list list \<times> 'a heap) option" where
  "chunk_loop h newArrays chunkSize chunks =
     (if length (h ! newArrays) \<noteq> 0
      then (case splice0 h newArrays chunkSize of
              (removed, h') \<Rightarrow> chunk_loop h' newArrays chunkSize (chunks @ [removed]))
      else Some (chunks, h))"

declare chunk_loop.simps [code]

definition splitIntoChunks :: "'a heap \<Rightarrow> nat \<Rightarrow> int \<Rightarrow> ('a list list \<times> 'a heap) option" where
  "splitIntoChunks h array chunkSize =
     (case slice0 h array of (newArrays, h') \<Rightarrow> chunk_loop h' newArrays chunkSize [])"

section \<open>Content transformer\<close>

text \<open>The callback of \<open>fieldFilters.forEach\<close>, on the variables \<open>fieldValue\<close> and
  \<open>indexedFieldName\<close> that it updates. The arguments cut out of the spec are strings.\<close>

fun filter_step :: "runtime \<Rightarrow> string \<Rightarrow> jsval \<times> string list \<Rightarrow> error + jsval \<times> string list" where
  "filter_step rt filter' (fieldValue, indexedFieldName) =
     (let filterArgs = split CHR '','' filter';
          filterName = hd filterArgs;
          filterArgs = map Str (tl filterArgs);
          indexedFieldName = indexedFieldName @ [upperFirst filterName];
          filterArgs = fieldValue # filterArgs
      in case FILTER_FUNCTIONS rt filterName of
           None \<Rightarrow> Inl TypeError
         | Some f \<Rightarrow>
             (case f filterArgs of
                Inl e \<Rightarrow> Inl e
              | Inr fieldValue \<Rightarrow> Inr (fieldValue, indexedFieldName)))"

text \<open>The callback of \<open>fieldsWithFilters.forEach\<close>, on the document being built and the log.
  The warning for a missing field goes through the global \<open>hexo\<close>.\<close>

definition field_step ::
  "runtime \<Rightarrow> object \<Rightarrow> string \<Rightarrow> object \<Rightarrow> event list \<Rightarrow> (error + object) \<times> event list" where
  "field_step rt initialContent field contentToIndex trace =
     (let fieldFilters = split CHR '':'' field;
          fieldName = hd fieldFilters;
          fieldFilters = tl fieldFilters
      in case map_of initialContent fieldName of
           None \<Rightarrow>
             (if global_hexo rt
              then (Inr contentToIndex,
                    trace @ [Warn (No_field (own_prop initialContent ''title'') fieldName)])
              else (Inl ReferenceError, trace))
         | Some fieldValue \<Rightarrow>
             (case for_each (filter_step rt) fieldFilters (fieldValue, []) of
                Inl e \<Rightarrow> (Inl e, trace)
              | Inr (fieldValue, indexedFieldName) \<Rightarrow>
                  (Inr (AList.update (fieldName @ concat indexedFieldName) fieldValue
                          contentToIndex),
                   trace)))"

text \<open>The callback of \<open>initialContent[field].data.forEach\<close>, on the array being filled.\<close>

definition push_name :: "jsval \<Rightarrow> jsval list \<Rightarrow> error + jsval list" where
  "push_name fieldElement names =
     (case get_prop fieldElement ''name'' of
        Inl e \<Rightarrow> Inl e
      | Inr name \<Rightarrow> Inr (names @ [name]))"

text \<open>The callback of \<open>tagsAndCategoriesFields.forEach\<close>. Only an array has \<open>forEach\<close>.\<close>

definition taxonomy_step :: "object \<Rightarrow> string \<Rightarrow> object \<Rightarrow> error + object" where
  "taxonomy_step initialContent field contentToIndex =
     (case get_prop (own_prop initialContent field) ''data'' of
        Inl e \<Rightarrow> Inl e
      | Inr (Arr elements) \<Rightarrow>
          (case for_each push_name elements [] of
             Inl e \<Rightarrow> Inl e
           | Inr names \<Rightarrow> Inr (AList.update field (Arr names) contentToIndex))
      | Inr _ \<Rightarrow> Inl TypeError)"

text \<open>The callback of \<open>contents.map\<close>: one record to one document.\<close>

definition prepare_content ::
  "runtime \<Rightarrow> string list \<Rightarrow> string list \<Rightarrow> object \<Rightarrow> event list \<Rightarrow>
   (error + object) \<times> event list" where
  "prepare_content rt fields' fieldsWithFilters initialContent trace =
     (let tagsAndCategoriesFields =
            filter (\<lambda>field. field \<in> set fields') [''tags'', ''categories''];
          contentToIndex = pick initialContent fields';
          contentToIndex =
            AList.update ''objectID'' (own_prop initialContent ''_id'') contentToIndex
      in case for_each (taxonomy_step initialContent) tagsAndCategoriesFields contentToIndex of
           Inl e \<Rightarrow> (Inl e, trace)
         | Inr contentToIndex \<Rightarrow>
             for_each_log (field_step rt initialContent) fieldsWithFilters contentToIndex trace)"

definition prepareContents ::
  "runtime \<Rightarrow> object list \<Rightarrow> string list \<Rightarrow> string list \<Rightarrow> event list \<Rightarrow>
   (error + object list) \<times> event list" where
  "prepareContents rt contents fields' fieldsWithFilters trace =
     map_log (prepare_content rt fields' fieldsWithFilters) contents trace"

section \<open>Sync orchestrator\<close>

text \<open>
  The upload: one \<open>saveObjects\<close> request per chunk, all issued before any is awaited.
  When several fail, the one that \<open>Promise.all\<close> reports depends on timing; the first in
  chunk order stands for it.
\<close>

definition upload ::
  "algolia \<Rightarrow> object list list \<Rightarrow> nat \<Rightarrow> event list \<Rightarrow> outcome \<times> event list" where
  "upload index chunkedContents n trace =
     (let trace = trace @ [Info Indexing] @ map SaveObjects chunkedContents
      in case List.map_filter (saveObjects index) chunkedContents of
           error # _ \<Rightarrow> (Callback (Some error), trace @ [Info (Index_error error)])
         | [] \<Rightarrow> (Completed, trace @ [Info (Indexed n)]))"

text \<open>\<open>args && !args.n\<close>: the condition under which the index is cleared.\<close>

definition clear_requested :: "jsval \<Rightarrow> bool" where
  "clear_requested args =
     (truthy args \<and> (case get_prop args ''n'' of Inr n \<Rightarrow> \<not> truthy n | Inl e \<Rightarrow> False))"

text \<open>The clear step and the upload after it.\<close>

definition clear_and_upload ::
  "algolia \<Rightarrow> jsval \<Rightarrow> object list list \<Rightarrow> nat \<Rightarrow> event list \<Rightarrow> outcome \<times> event list" where
  "clear_and_upload index args chunkedContents n trace =
     (if clear_requested args
      then
        (case clearObjects index of
           Some error \<Rightarrow>
             (Callback (Some error),
              trace @ [Info Clearing, ClearObjects, Info (Clear_error error)])
         | None \<Rightarrow>
             upload index chunkedContents n
               (trace @ [Info Clearing, ClearObjects, Info Cleared]))
      else upload index chunkedContents n trace)"

text \<open>\<open>algoliaCommand\<close>. \<open>None\<close> is a run that never ends.\<close>

definition algoliaCommand ::
  "runtime \<Rightarrow> hexo \<Rightarrow> algolia \<Rightarrow> jsval \<Rightarrow> (outcome \<times> event list) option" where
  "algoliaCommand rt hexo index args =
     (let postFields = getBasicFields (post_fields hexo);
          postFieldsWithFilters = getFieldsWithFilters (post_fields hexo);
          pageFields = getBasicFields (page_fields hexo);
          pageFieldsWithFilters = getFieldsWithFilters (page_fields hexo);
          algoliaChunkSize =
            (case config_chunkSize hexo of Some n \<Rightarrow> if n \<noteq> 0 then n else 5000 | None \<Rightarrow> 5000)
      in case call_generate hexo of
           Some e \<Rightarrow> Some (Thrown e, [Generate])
         | None \<Rightarrow>
      (case database_load hexo of
           Some e \<Rightarrow> Some (Thrown e, [Generate, Load])
         | None \<Rightarrow>
      (if length (published_posts hexo) = 0
       then Some (Callback None, [Generate, Load, Find_posts, Info No_post])
       else
      (case prepareContents rt (published_posts hexo) postFields postFieldsWithFilters
              [Generate, Load, Find_posts] of
           (Inl e, trace) \<Rightarrow> Some (Thrown e, trace)
         | (Inr posts', trace) \<Rightarrow>
      (case prepareContents rt (all_pages hexo) pageFields pageFieldsWithFilters
              (trace @ [Find_pages]) of
           (Inl e, trace) \<Rightarrow> Some (Thrown e, trace)
         | (Inr pages', trace) \<Rightarrow>
      (case splitIntoChunks [posts' @ pages'] 0 algoliaChunkSize of
           None \<Rightarrow> None
         | Some (chunkedContents, h) \<Rightarrow>
      (case initIndex index of
           Some e \<Rightarrow> Some (Thrown e, trace @ [Init_index])
         | None \<Rightarrow>
             Some (clear_and_upload index args chunkedContents (length posts')
                     (trace @ [Init_index])))))))))"

section \<open>The field spec as the specification describes it\<close>

text \<open>
  The specification parses a filter-bearing spec once into a field name and an ordered list
  of filters, each a name with its positional string arguments; it applies the filters from
  left to right, each to the previous result as first argument; and it stores the final
  value under the field name followed by the capitalized filter names. These definitions
  follow those words, to be compared with the loops of \<open>prepareContents\<close>.
\<close>

type_synonym parsed_field_spec = "string \<times> (string \<times> string list) list"

definition spec_parse_filter :: "string \<Rightarrow> string \<times> string list" where
  "spec_parse_filter segment = (hd (split CHR '','' segment), tl (split CHR '','' segment))"

definition spec_parse :: "string \<Rightarrow> parsed_field_spec" where
  "spec_parse field = (hd (split CHR '':'' field), map spec_parse_filter (tl (split CHR '':'' field)))"

definition spec_key :: "parsed_field_spec \<Rightarrow> string" where
  "spec_key p = fst p @ concat (map (\<lambda>f. upperFirst (fst f)) (snd p))"

fun spec_chain :: "runtime \<Rightarrow> jsval \<Rightarrow> (string \<times> string list) list \<Rightarrow> error + jsval" where
  "spec_chain rt v [] = Inr v"
| "spec_chain rt v (f # fs) =
     (case FILTER_FUNCTIONS rt (fst f) of
        None \<Rightarrow> Inl TypeError
      | Some g \<Rightarrow>
          (case g (v # map Str (snd f)) of
             Inl e \<Rightarrow> Inl e
           | Inr v' \<Rightarrow> spec_chain rt v' fs))"

text \<open>The name of a taxonomy term, whatever else the term carries.\<close>

definition term_name :: "jsval \<Rightarrow> jsval" where
  "term_name fieldElement =
     (case fieldElement of Obj ps \<Rightarrow> own_prop ps ''name'' | _ \<Rightarrow> Undefined)"

section \<open>A sample runtime\<close>

text \<open>
  The parameters at concrete values, to run the model on examples. \<open>strip_markup\<close> stands in
  for the external \<open>striptags\<close> package: it drops everything from a \<open><\<close> to the next \<open>>\<close>.
  The sample runtime resolves no argument that the model leaves to it, finds no inherited
  function that succeeds, and has a global \<open>hexo\<close>.
\<close>

fun strip_markup :: "bool \<Rightarrow> string \<Rightarrow> string" where
  "strip_markup in_tag [] = []"
| "strip_markup in_tag (c # cs) =
     (if in_tag then strip_markup (c \<noteq> CHR ''>'') cs
      else if c = CHR ''<'' then strip_markup True cs
      else c # strip_markup False cs)"

definition sample_runtime :: runtime where
  "sample_runtime =
     \<lparr>striptags =
        (\<lambda>args. case arg args 0 of
                  Str s \<Rightarrow> Inr (Str (strip_markup False s))
                | _ \<Rightarrow> Inl (External ''striptags'')),
      to_integer = (\<lambda>v. Fin 0),
      object_prototype = (\<lambda>name args. Inl TypeError),
      global_hexo = True\<rparr>"

text \<open>A post with a title, marked-up content, two tags, and a field named \<open>objectID\<close>;
  a page without taxonomy.\<close>

definition sample_post :: object where
  "sample_post =
     [(''_id'', Str ''p1''), (''title'', Str ''First''), (''content'', Str ''<b>hi</b> there''),
      (''objectID'', Str ''mine''),
      (''tags'',
         Obj [(''data'',
                 Arr [Obj [(''name'', Str ''a''), (''_id'', Str ''t1'')],
                      Obj [(''name'', Str ''b''), (''_id'', Str ''t2'')]]),
              (''length'', Num 2)])]"

definition sample_page :: object where
  "sample_page = [(''_id'', Str ''g1''), (''title'', Str ''About''), (''content'', Str ''hello'')]"

definition sample_hexo :: hexo where
  "sample_hexo =
     \<lparr>post_fields = [''title'', ''tags'', ''content:strip''],
      page_fields = [''title'', ''content:truncate,0,2''],
      config_chunkSize = Some 1,
      call_generate = None,
      database_load = None,
      published_posts = [sample_post],
      all_pages = [sample_page]\<rparr>"

definition sample_index :: algolia where
  "sample_index = \<lparr>initIndex = None, clearObjects = None, saveObjects = (\<lambda>content. None)\<rparr>"

section \<open>Properties of the batcher\<close>

lemma splice0_other:
  "splice0 h b k = (removed, h') \<Longrightarrow>
   length h' = length h \<and> (\<forall>a. a \<noteq> b \<longrightarrow> h' ! a = h ! a)"
  by (auto simp: splice0_def Let_def)

lemma chunk_loop_frame:
  assumes "chunk_loop h b k chunks = Some y"
  shows "length (snd y) = length h \<and> (\<forall>a. a \<noteq> b \<longrightarrow> snd y ! a = h ! a)"
proof (rule chunk_loop.raw_induct
    [where P = "\<lambda>h b k chunks y. length (snd y) = length h \<and> (\<forall>a. a \<noteq> b \<longrightarrow> snd y ! a = h ! a)",
      OF _ assms])
  fix loop :: "'a heap \<Rightarrow> nat \<Rightarrow> int \<Rightarrow> 'a list list \<Rightarrow> ('a list list \<times> 'a heap) option"
  fix h b k chunks y
  assume IH: "\<And>h b k chunks y. loop h b k chunks = Some y \<Longrightarrow>
      length (snd y) = length h \<and> (\<forall>a. a \<noteq> b \<longrightarrow> snd y ! a = h ! a)"
  assume body: "(if length (h ! b) \<noteq> 0
      then case splice0 h b k of (removed, h') \<Rightarrow> loop h' b k (chunks @ [removed])
      else Some (chunks, h)) = Some y"
  show "length (snd y) = length h \<and> (\<forall>a. a \<noteq> b \<longrightarrow> snd y ! a = h ! a)"
  proof (cases "length (h ! b) \<noteq> 0")
    case False
    with body show ?thesis by auto
  next
    case True
    obtain removed h1 where s: "splice0 h b k = (removed, h1)"
      by (cases "splice0 h b k")
    with True body have "loop h1 b k (chunks @ [removed]) = Some y"
      by simp
    from IH [OF this] splice0_other [OF s] show ?thesis
      by simp
  qed
qed

lemma chunk_loop_returns:
  "0 < k \<Longrightarrow> b < length h \<Longrightarrow>
   \<exists>cs. chunk_loop h b k chunks = Some (chunks @ cs, h[b := []]) \<and> concat cs = h ! b \<and>
     (\<forall>c\<in>set cs. c \<noteq> [] \<and> int (length c) \<le> k) \<and>
     (\<forall>c\<in>set (butlast cs). int (length c) = k)"
proof (induction "length (h ! b)" arbitrary: h chunks rule: less_induct)
  case less
  show ?case
  proof (cases "h ! b = []")
    case True
    then have "chunk_loop h b k chunks = Some (chunks, h)"
      by (subst chunk_loop.simps) simp
    moreover have "h[b := []] = h"
      using True by (metis list_update_id)
    ultimately show ?thesis using True by simp
  next
    case False
    define n where "n = nat (min (max k 0) (int (length (h ! b))))"
    define h1 where "h1 = h[b := drop n (h ! b)]"
    have len_pos: "0 < length (h ! b)"
      using False by simp
    have n_pos: "0 < n"
      using len_pos less.prems(1) by (auto simp: n_def)
    have step: "chunk_loop h b k chunks = chunk_loop h1 b k (chunks @ [take n (h ! b)])"
      using False by (subst chunk_loop.simps) (simp add: splice0_def Let_def n_def h1_def)
    have h1b: "h1 ! b = drop n (h ! b)"
      using less.prems(2) by (simp add: h1_def)
    have "length (h1 ! b) < length (h ! b)"
      using len_pos n_pos by (simp add: h1b)
    moreover have "b < length h1"
      using less.prems(2) by (simp add: h1_def)
    ultimately obtain cs where cs:
      "chunk_loop h1 b k (chunks @ [take n (h ! b)]) =
         Some ((chunks @ [take n (h ! b)]) @ cs, h1[b := []])"
      "concat cs = h1 ! b"
      "\<forall>c\<in>set cs. c \<noteq> [] \<and> int (length c) \<le> k"
      "\<forall>c\<in>set (butlast cs). int (length c) = k"
      using less.hyps less.prems(1) by blast
    let ?cs = "take n (h ! b) # cs"
    have a: "chunk_loop h b k chunks = Some (chunks @ ?cs, h[b := []])"
      using step cs(1) by (simp add: h1_def)
    have b: "concat ?cs = h ! b"
      using cs(2) h1b by simp
    have t1: "take n (h ! b) \<noteq> []"
      using n_pos len_pos by simp
    have t2: "int (length (take n (h ! b))) \<le> k"
      using less.prems(1) unfolding n_def by simp
    have c: "\<forall>c\<in>set ?cs. c \<noteq> [] \<and> int (length c) \<le> k"
      using cs(3) t1 t2 by simp
    have d: "\<forall>c\<in>set (butlast ?cs). int (length c) = k"
    proof (cases "cs = []")
      case True
      then show ?thesis by simp
    next
      case ne: False
      then obtain c where "c \<in> set cs" by (cases cs) auto
      with cs(3) have "c \<noteq> []" by blast
      with \<open>c \<in> set cs\<close> have "concat cs \<noteq> []" by auto
      with cs(2) h1b have "n < length (h ! b)" by simp
      then have "int (length (take n (h ! b))) = k"
        using less.prems(1) by (auto simp: n_def)
      with ne cs(4) show ?thesis by simp
    qed
    from a b c d show ?thesis by blast
  qed
qed

lemma splitIntoChunks_returns:
  assumes "array < length h" and "0 < chunkSize"
  shows "\<exists>chunks h'. splitIntoChunks h array chunkSize = Some (chunks, h') \<and>
           concat chunks = h ! array"
proof -
  let ?h = "h @ [h ! array]"
  have "length h < length ?h" by simp
  from chunk_loop_returns [OF assms(2) this, of "[]"]
  obtain cs where "chunk_loop ?h (length h) chunkSize [] = Some (cs, ?h[length h := []])"
    and "concat cs = ?h ! length h"
    by auto
  then show ?thesis
    by (simp add: splitIntoChunks_def slice0_def)
qed

text \<open>
  Claim C1. For every array and every positive integer chunk size, \<open>splitIntoChunks\<close>
  returns, and the chunks it returns concatenate in order to the input array; no chunk is
  empty or longer than the chunk size; every chunk but the last has exactly the chunk size;
  and an empty input gives no chunks.
\<close>

theorem splitIntoChunks_partition:
  assumes "array < length h" and "0 < chunkSize"
  shows "\<exists>chunks h'. splitIntoChunks h array chunkSize = Some (chunks, h') \<and>
           concat chunks = h ! array \<and>
           (\<forall>c\<in>set chunks. c \<noteq> [] \<and> int (length c) \<le> chunkSize) \<and>
           (\<forall>c\<in>set (butlast chunks). int (length c) = chunkSize) \<and>
           (h ! array = [] \<longrightarrow> chunks = [])"
proof -
  let ?h = "h @ [h ! array]"
  have "length h < length ?h" by simp
  from chunk_loop_returns [OF assms(2) this, of "[]"]
  obtain cs where cs:
    "chunk_loop ?h (length h) chunkSize [] = Some (cs, ?h[length h := []])"
    "concat cs = ?h ! length h"
    "\<forall>c\<in>set cs. c \<noteq> [] \<and> int (length c) \<le> chunkSize"
    "\<forall>c\<in>set (butlast cs). int (length c) = chunkSize"
    by auto
  have run: "splitIntoChunks h array chunkSize = Some (cs, ?h[length h := []])"
    using cs(1) by (simp add: splitIntoChunks_def slice0_def)
  have cat: "concat cs = h ! array"
    using cs(2) by simp
  have "h ! array = [] \<longrightarrow> cs = []"
    using cat cs(3) by (cases cs) auto
  with run cat cs(3,4) show ?thesis by blast
qed

theorem splitIntoChunks_partition_witness:
  "(0::nat) < length [[1, 2, 3, 4, 5::nat]] \<and> (0::int) < 2 \<and>
   splitIntoChunks [[1, 2, 3, 4, 5::nat]] 0 2 = Some ([[1, 2], [3, 4], [5]], [[1, 2, 3, 4, 5], []]) \<and>
   (\<exists>chunks h'. splitIntoChunks [[1, 2, 3, 4, 5::nat]] 0 2 = Some (chunks, h') \<and>
      concat chunks = [[1, 2, 3, 4, 5]] ! 0 \<and>
      (\<forall>c\<in>set chunks. c \<noteq> [] \<and> int (length c) \<le> 2) \<and>
      (\<forall>c\<in>set (butlast chunks). int (length c) = 2) \<and>
      ([[1, 2, 3, 4, 5::nat]] ! 0 = [] \<longrightarrow> chunks = []))"
proof -
  have h1: "(0::nat) < length [[1, 2, 3, 4, 5::nat]]" by simp
  have h2: "(0::int) < 2" by simp
  have v: "splitIntoChunks [[1, 2, 3, 4, 5::nat]] 0 2 = Some ([[1, 2], [3, 4], [5]], [[1, 2, 3, 4, 5], []])"
    by code_simp
  from h1 h2 v splitIntoChunks_partition [OF h1 h2] show ?thesis by blast
qed

text \<open>
  Claim C10. \<open>splitIntoChunks\<close> works on a copy: whenever it returns, every array that
  existed before the call, the input array among them, holds what it held before; and for
  a positive chunk size it does return.
\<close>

theorem splitIntoChunks_input_unchanged:
  assumes "array < length h"
  shows "(\<forall>chunks h'. splitIntoChunks h array chunkSize = Some (chunks, h') \<longrightarrow>
            take (length h) h' = h \<and> h' ! array = h ! array) \<and>
         (0 < chunkSize \<longrightarrow> splitIntoChunks h array chunkSize \<noteq> None)"
proof (intro conjI allI impI)
  fix chunks h'
  assume run: "splitIntoChunks h array chunkSize = Some (chunks, h')"
  let ?h = "h @ [h ! array]"
  from run have "chunk_loop ?h (length h) chunkSize [] = Some (chunks, h')"
    by (simp add: splitIntoChunks_def slice0_def)
  from chunk_loop_frame [OF this]
  have len: "length h' = Suc (length h)"
    and same: "\<And>a. a \<noteq> length h \<Longrightarrow> h' ! a = ?h ! a"
    by simp_all
  have nth: "\<And>a. a < length h \<Longrightarrow> h' ! a = h ! a"
    using same by (simp add: nth_append)
  show "take (length h) h' = h"
    using len nth by (intro nth_equalityI) simp_all
  show "h' ! array = h ! array"
    using nth assms by simp
next
  assume "0 < chunkSize"
  from splitIntoChunks_returns [OF assms this] show "splitIntoChunks h array chunkSize \<noteq> None"
    by auto
qed

theorem splitIntoChunks_input_unchanged_witness:
  "(0::nat) < length [[1, 2, 3::nat]] \<and>
   splitIntoChunks [[1, 2, 3::nat]] 0 2 = Some ([[1, 2], [3]], [[1, 2, 3], []]) \<and>
   take (length [[1, 2, 3::nat]]) [[1, 2, 3], []] = [[1, 2, 3::nat]]"
proof -
  have h1: "(0::nat) < length [[1, 2, 3::nat]]" by simp
  have v: "splitIntoChunks [[1, 2, 3::nat]] 0 2 = Some ([[1, 2], [3]], [[1, 2, 3], []])"
    by code_simp
  from splitIntoChunks_input_unchanged [OF h1, of 2] v h1 show ?thesis by simp
qed

section \<open>Properties of the filters\<close>

lemma take_min_length: "take n xs = take (min n (length xs)) xs"
  by (simp add: min_def)

lemma take_cong_min: "min n (length xs) = min m (length xs) \<Longrightarrow> take n xs = take m xs"
  by (metis take_min_length)

lemma substr_Fin:
  assumes "ToIntegerOrInfinity rt start = Fin i" and "ToIntegerOrInfinity rt len = Fin l"
    and "len \<noteq> Undefined"
  shows "substr rt S start len =
           take (nat l) (drop (nat (if i < 0 then max (int (length S) + i) 0 else i)) S)"
proof -
  define size where "size = int (length S)"
  define intStart where "intStart = (if i < 0 then max (size + i) 0 else min i size)"
  define intLength where "intLength = min (max l 0) size"
  define pos where "pos = (if i < 0 then max (size + i) 0 else i)"
  have unfolded: "substr rt S start len =
      take (nat (min (intStart + intLength) size - intStart)) (drop (nat intStart) S)"
    using assms by (simp add: substr_def Let_def size_def intStart_def intLength_def)
  have size0: "0 \<le> size" by (simp add: size_def)
  have start_range: "0 \<le> intStart" "intStart \<le> size"
    using size0 by (auto simp: intStart_def)
  have drop_eq: "drop (nat intStart) S = drop (nat pos) S"
  proof (cases "0 \<le> i \<and> size < i")
    case True
    then have "intStart = size" "pos = i" by (auto simp: intStart_def pos_def)
    moreover from True have "length S \<le> nat i" unfolding size_def by linarith
    ultimately show ?thesis by (simp add: size_def)
  next
    case False
    then have "intStart = pos" by (auto simp: intStart_def pos_def)
    then show ?thesis by simp
  qed
  have len_drop: "int (length (drop (nat intStart) S)) = size - intStart"
    using start_range by (simp add: size_def)
  have "min (nat (min (intStart + intLength) size - intStart)) (length (drop (nat intStart) S))
      = min (nat l) (length (drop (nat intStart) S))"
    using len_drop start_range size0 unfolding intLength_def by linarith
  then have "take (nat (min (intStart + intLength) size - intStart)) (drop (nat intStart) S)
      = take (nat l) (drop (nat intStart) S)"
    by (rule take_cong_min)
  with unfolded drop_eq show ?thesis by (simp add: pos_def size_def)
qed

lemma decimal_nonneg:
  assumes "list_all is_digit s"
  shows "0 \<le> decimal s"
proof -
  have "0 \<le> foldl (\<lambda>n c. 10 * n + (int (of_char c) - 48)) n s"
    if "0 \<le> n" and "list_all is_digit s" for n :: int
    using that
  proof (induction s arbitrary: n)
    case Nil
    then show ?case by simp
  next
    case (Cons c cs)
    from Cons.prems(2) have "48 \<le> (of_char c :: nat)" by (simp add: is_digit_def)
    then have "0 \<le> int (of_char c) - 48" by simp
    with Cons.prems(1) have "0 \<le> 10 * n + (int (of_char c) - 48)" by simp
    from Cons.IH [OF this] Cons.prems(2) show ?case by simp
  qed
  from this [of 0] assms show ?thesis by (simp add: decimal_def)
qed

lemma ToIntegerOrInfinity_numeral:
  "s \<noteq> [] \<Longrightarrow> length s \<le> 15 \<Longrightarrow> list_all is_digit s \<Longrightarrow>
   ToIntegerOrInfinity rt (Str s) = Fin (decimal s)"
  by (simp add: ToIntegerOrInfinity_def)

text \<open>
  Claim C7. Applied to a string with arguments that denote the integers \<open>i\<close> and \<open>l\<close>,
  \<open>truncate\<close> returns the substring that begins at position \<open>i\<close> (counted from the end of
  the string when \<open>i\<close> is negative) and has length \<open>l\<close>, cut off at the end of the string:
  the third argument is a length, not an end index. For arguments written in the spec as
  numerals of at most fifteen digits this holds whatever the runtime is. The spec
  \<open>content:truncate,0,2\<close> on the content \<open>hello\<close> stores \<open>he\<close> under \<open>contentTruncate\<close>.
\<close>

theorem truncate_substring:
  "(ToIntegerOrInfinity rt start = Fin i \<and> ToIntegerOrInfinity rt end' = Fin l \<and>
      end' \<noteq> Undefined \<longrightarrow>
    truncate rt [Str post, start, end'] =
      Inr (Str (take (nat l)
                  (drop (nat (if i < 0 then max (int (length post) + i) 0 else i)) post)))) \<and>
   (a \<noteq> [] \<and> length a \<le> 15 \<and> list_all is_digit a \<and>
    b \<noteq> [] \<and> length b \<le> 15 \<and> list_all is_digit b \<longrightarrow>
    truncate rt [Str post, Str a, Str b] =
      Inr (Str (take (nat (decimal b)) (drop (nat (decimal a)) post)))) \<and>
   prepareContents rt [[(''_id'', Str ''p1''), (''content'', Str ''hello'')]] []
       [''content:truncate,0,2''] [] =
     (Inr [[(''objectID'', Str ''p1''), (''contentTruncate'', Str ''he'')]], [])"
proof (intro conjI impI)
  assume "ToIntegerOrInfinity rt start = Fin i \<and> ToIntegerOrInfinity rt end' = Fin l \<and>
      end' \<noteq> Undefined"
  then show "truncate rt [Str post, start, end'] =
      Inr (Str (take (nat l)
                  (drop (nat (if i < 0 then max (int (length post) + i) 0 else i)) post)))"
    by (simp add: truncate_def arg_def substr_Fin)
next
  assume h: "a \<noteq> [] \<and> length a \<le> 15 \<and> list_all is_digit a \<and>
    b \<noteq> [] \<and> length b \<le> 15 \<and> list_all is_digit b"
  then have "ToIntegerOrInfinity rt (Str a) = Fin (decimal a)"
    and "ToIntegerOrInfinity rt (Str b) = Fin (decimal b)"
    by (simp_all add: ToIntegerOrInfinity_numeral)
  moreover have "Str b \<noteq> Undefined" by simp
  ultimately have "substr rt post (Str a) (Str b) =
      take (nat (decimal b))
        (drop (nat (if decimal a < 0 then max (int (length post) + decimal a) 0 else decimal a))
           post)"
    by (rule substr_Fin)
  moreover from h have "0 \<le> decimal a" by (simp add: decimal_nonneg)
  ultimately show "truncate rt [Str post, Str a, Str b] =
      Inr (Str (take (nat (decimal b)) (drop (nat (decimal a)) post)))"
    by (simp add: truncate_def arg_def)
next
  show "prepareContents rt [[(''_id'', Str ''p1''), (''content'', Str ''hello'')]] []
       [''content:truncate,0,2''] [] =
     (Inr [[(''objectID'', Str ''p1''), (''contentTruncate'', Str ''he'')]], [])"
    by code_simp
qed

theorem truncate_substring_witness:
  "ToIntegerOrInfinity sample_runtime (Str ''1'') = Fin 1 \<and>
   ToIntegerOrInfinity sample_runtime (Str ''2'') = Fin 2 \<and>
   Str ''2'' \<noteq> Undefined \<and>
   list_all is_digit ''1'' \<and> list_all is_digit ''2'' \<and> decimal ''1'' = 1 \<and> decimal ''2'' = 2 \<and>
   truncate sample_runtime [Str ''hello'', Str ''1'', Str ''2''] = Inr (Str ''el'')"
proof -
  have h: "ToIntegerOrInfinity sample_runtime (Str ''1'') = Fin 1 \<and>
      ToIntegerOrInfinity sample_runtime (Str ''2'') = Fin 2 \<and> Str ''2'' \<noteq> Undefined"
    by (simp add: ToIntegerOrInfinity_def is_digit_def decimal_def)
  have d: "list_all is_digit ''1'' \<and> list_all is_digit ''2'' \<and> decimal ''1'' = 1 \<and>
      decimal ''2'' = 2"
    by (simp add: is_digit_def decimal_def)
  from truncate_substring [of sample_runtime "Str ''1''" 1 "Str ''2''" 2 "''hello''" "''1''" "''2''"]
    h d
  show ?thesis by simp
qed

section \<open>Properties of the content transformer\<close>

lemma push_front_nonempty: "push_front c ws \<noteq> []"
  by (cases ws) simp_all

lemma split_nonempty: "split sep s \<noteq> []"
  by (induction s) (simp_all add: push_front_nonempty)

lemma length_push_front: "ws \<noteq> [] \<Longrightarrow> length (push_front c ws) = length ws"
  by (cases ws) simp_all

lemma length_split: "length (split sep s) = Suc (length (filter (\<lambda>c. c = sep) s))"
  by (induction s) (simp_all add: length_push_front split_nonempty)

lemma split_has_filter:
  assumes "sep \<in> set s"
  shows "tl (split sep s) \<noteq> []"
proof -
  from assms have "filter (\<lambda>c. c = sep) s \<noteq> []"
    by (simp add: filter_empty_conv)
  then have "2 \<le> length (split sep s)"
    by (simp add: length_split Suc_le_eq)
  then show ?thesis
    by (cases "split sep s") auto
qed

lemma callable_last:
  assumes "FILTER_FUNCTIONS rt name = Some f"
  shows "upperFirst name \<noteq> [] \<and> last (upperFirst name) \<in> set ''peryfg_''"
proof -
  from assms have "name = ''strip'' \<or> name = ''truncate'' \<or> name \<in> set object_prototype_functions"
    by (auto simp: FILTER_FUNCTIONS_def split: if_splits)
  then show ?thesis
    by (auto simp: object_prototype_functions_def upperFirst_def)
qed

lemma for_each_filter_step:
  "for_each (filter_step rt) segments (v, names) =
     (case spec_chain rt v (map spec_parse_filter segments) of
        Inl e \<Rightarrow> Inl e
      | Inr v' \<Rightarrow>
          Inr (v', names @ map (\<lambda>f. upperFirst (fst f)) (map spec_parse_filter segments)))"
proof (induction segments arbitrary: v names)
  case Nil
  show ?case by simp
next
  case (Cons segment segments)
  have name: "fst (spec_parse_filter segment) = hd (split CHR '','' segment)"
    and args: "snd (spec_parse_filter segment) = tl (split CHR '','' segment)"
    by (simp_all add: spec_parse_filter_def)
  show ?case
  proof (cases "FILTER_FUNCTIONS rt (hd (split CHR '','' segment))")
    case None
    then show ?thesis by (simp add: name args Let_def)
  next
    case (Some g)
    show ?thesis
    proof (cases "g (v # map Str (tl (split CHR '','' segment)))")
      case (Inl e)
      with Some show ?thesis by (simp add: name args Let_def)
    next
      case (Inr v1)
      with Some Cons.IH [of v1 "names @ [upperFirst (hd (split CHR '','' segment))]"]
      show ?thesis by (simp add: name args Let_def split: sum.splits)
    qed
  qed
qed

lemma spec_chain_callable:
  "spec_chain rt v fs = Inr v' \<Longrightarrow> f \<in> set fs \<Longrightarrow> FILTER_FUNCTIONS rt (fst f) \<noteq> None"
  by (induction fs arbitrary: v) (auto split: option.splits sum.splits)

lemma spec_key_last:
  assumes "snd p \<noteq> []" and "\<forall>f\<in>set (snd p). FILTER_FUNCTIONS rt (fst f) \<noteq> None"
  shows "last (spec_key p) \<in> set ''peryfg_''"
proof -
  let ?U = "\<lambda>f. upperFirst (fst f)"
  from assms(1) have decomp: "snd p = butlast (snd p) @ [last (snd p)]" by simp
  from assms(1) have "last (snd p) \<in> set (snd p)" by simp
  with assms(2) obtain g where "FILTER_FUNCTIONS rt (fst (last (snd p))) = Some g" by auto
  from callable_last [OF this]
  have ne: "?U (last (snd p)) \<noteq> []" and l: "last (?U (last (snd p))) \<in> set ''peryfg_''"
    by simp_all
  have "concat (map ?U (snd p)) = concat (map ?U (butlast (snd p))) @ ?U (last (snd p))"
    by (subst decomp) simp
  then have "spec_key p = (fst p @ concat (map ?U (butlast (snd p)))) @ ?U (last (snd p))"
    by (simp add: spec_key_def)
  with ne have "last (spec_key p) = last (?U (last (snd p)))"
    by simp
  with l show ?thesis by simp
qed

lemma field_step_carried:
  assumes "map_of r (fst (spec_parse field)) = Some v"
  shows "field_step rt r field doc t =
           (case spec_chain rt v (snd (spec_parse field)) of
              Inl e \<Rightarrow> (Inl e, t)
            | Inr v' \<Rightarrow> (Inr (AList.update (spec_key (spec_parse field)) v' doc), t))"
  using assms
  by (simp add: field_step_def Let_def spec_parse_def spec_key_def for_each_filter_step
      split: sum.splits)

lemma field_step_absent:
  assumes "map_of r (fst (spec_parse field)) = None"
  shows "field_step rt r field doc t =
           (if global_hexo rt
            then (Inr doc, t @ [Warn (No_field (own_prop r ''title'') (fst (spec_parse field)))])
            else (Inl ReferenceError, t))"
  using assms by (simp add: field_step_def Let_def spec_parse_def)

lemma field_step_protected:
  assumes run: "field_step rt r field doc t = (Inr doc', t')"
    and colon: "CHR '':'' \<in> set field"
    and k: "last k \<notin> set ''peryfg_''"
  shows "map_of doc' k = map_of doc k"
proof (cases "map_of r (fst (spec_parse field))")
  case None
  from run field_step_absent [OF None, of rt doc t] show ?thesis
    by (simp split: if_splits)
next
  case (Some v)
  from run field_step_carried [OF Some] obtain v' where
    chain: "spec_chain rt v (snd (spec_parse field)) = Inr v'"
    and doc': "doc' = AList.update (spec_key (spec_parse field)) v' doc"
    by (auto split: sum.splits)
  have "snd (spec_parse field) \<noteq> []"
    using split_has_filter [OF colon] by (simp add: spec_parse_def)
  moreover have "\<forall>f\<in>set (snd (spec_parse field)). FILTER_FUNCTIONS rt (fst f) \<noteq> None"
    using spec_chain_callable [OF chain] by blast
  ultimately have "last (spec_key (spec_parse field)) \<in> set ''peryfg_''"
    by (rule spec_key_last)
  with k have "spec_key (spec_parse field) \<noteq> k" by auto
  with doc' show ?thesis by (simp add: update_conv')
qed

lemma for_each_log_field_step_protected:
  assumes "for_each_log (field_step rt r) fwf doc t = (Inr doc', t')"
    and "\<forall>field\<in>set fwf. CHR '':'' \<in> set field"
    and "last k \<notin> set ''peryfg_''"
  shows "map_of doc' k = map_of doc k"
  using assms
proof (induction fwf arbitrary: doc t)
  case Nil
  then show ?case by simp
next
  case (Cons field fwf)
  obtain r1 t1 where s: "field_step rt r field doc t = (r1, t1)"
    by (cases "field_step rt r field doc t")
  with Cons.prems(1) obtain doc1 where r1: "r1 = Inr doc1"
    by (cases r1) auto
  from Cons.prems(1) s r1 have rest: "for_each_log (field_step rt r) fwf doc1 t1 = (Inr doc', t')"
    by simp
  from s r1 Cons.prems(2,3) have "map_of doc1 k = map_of doc k"
    by (intro field_step_protected) auto
  moreover from Cons.IH [OF rest] Cons.prems(2,3) have "map_of doc' k = map_of doc1 k"
    by simp
  ultimately show ?case by simp
qed


lemma for_each_push_name:
  "for_each push_name elements acc = Inr names \<Longrightarrow> names = acc @ map term_name elements"
proof (induction elements arbitrary: acc)
  case Nil
  then show ?case by simp
next
  case (Cons fieldElement elements)
  from Cons.prems obtain acc1 where
    p: "push_name fieldElement acc = Inr acc1"
    and rest1: "for_each push_name elements acc1 = Inr names"
    by (auto split: sum.splits)
  from p obtain name where
    n: "get_prop fieldElement ''name'' = Inr name" and acc1: "acc1 = acc @ [name]"
    by (auto simp: push_name_def split: sum.splits)
  from rest1 acc1 have rest: "for_each push_name elements (acc @ [name]) = Inr names"
    by simp
  from n have "name = term_name fieldElement"
    by (cases fieldElement) (auto simp: get_prop_def term_name_def)
  with Cons.IH [OF rest] show ?case by simp
qed

lemma taxonomy_step_Inr:
  assumes "taxonomy_step r field doc = Inr doc'"
  shows "\<exists>elements. get_prop (own_prop r field) ''data'' = Inr (Arr elements) \<and>
           doc' = AList.update field (Arr (map term_name elements)) doc"
proof -
  from assms obtain elements names where
    d: "get_prop (own_prop r field) ''data'' = Inr (Arr elements)"
    and n: "for_each push_name elements [] = Inr names"
    and doc': "doc' = AList.update field (Arr names) doc"
    by (auto simp: taxonomy_step_def split: sum.splits jsval.splits)
  from for_each_push_name [OF n] d doc' show ?thesis by simp
qed

lemma for_each_taxonomy_other:
  "for_each (taxonomy_step r) fs doc = Inr doc' \<Longrightarrow> k \<notin> set fs \<Longrightarrow> map_of doc' k = map_of doc k"
proof (induction fs arbitrary: doc)
  case Nil
  then show ?case by simp
next
  case (Cons f fs)
  from Cons.prems(1) obtain doc1 where
    s: "taxonomy_step r f doc = Inr doc1" and rest: "for_each (taxonomy_step r) fs doc1 = Inr doc'"
    by (auto split: sum.splits)
  from taxonomy_step_Inr [OF s] Cons.prems(2) have "map_of doc1 k = map_of doc k"
    by (auto simp: update_conv')
  with Cons.IH [OF rest] Cons.prems(2) show ?case by simp
qed

lemma for_each_taxonomy_field:
  "for_each (taxonomy_step r) fs doc = Inr doc' \<Longrightarrow> distinct fs \<Longrightarrow> field \<in> set fs \<Longrightarrow>
   \<exists>elements. get_prop (own_prop r field) ''data'' = Inr (Arr elements) \<and>
     map_of doc' field = Some (Arr (map term_name elements))"
proof (induction fs arbitrary: doc)
  case Nil
  then show ?case by simp
next
  case (Cons f fs)
  from Cons.prems(1) obtain doc1 where
    s: "taxonomy_step r f doc = Inr doc1" and rest: "for_each (taxonomy_step r) fs doc1 = Inr doc'"
    by (auto split: sum.splits)
  show ?case
  proof (cases "field = f")
    case True
    from taxonomy_step_Inr [OF s] obtain elements where
      d: "get_prop (own_prop r f) ''data'' = Inr (Arr elements)"
      and doc1: "doc1 = AList.update f (Arr (map term_name elements)) doc"
      by blast
    from Cons.prems(2) have "f \<notin> set fs" by simp
    from for_each_taxonomy_other [OF rest this] doc1
    have "map_of doc' f = Some (Arr (map term_name elements))"
      by (simp add: update_conv')
    with d True show ?thesis by blast
  next
    case False
    with Cons.prems have "distinct fs" "field \<in> set fs" by simp_all
    from Cons.IH [OF rest this] show ?thesis .
  qed
qed

lemma prepare_content_Inr:
  assumes run: "prepare_content rt fs fwf r t = (Inr doc, t')"
    and colon: "\<forall>field\<in>set fwf. CHR '':'' \<in> set field"
  shows "map_of doc ''objectID'' = Some (own_prop r ''_id'')"
    and "field \<in> {''tags'', ''categories''} \<Longrightarrow> field \<in> set fs \<Longrightarrow>
      \<exists>elements. get_prop (own_prop r field) ''data'' = Inr (Arr elements) \<and>
        map_of doc field = Some (Arr (map term_name elements))"
proof -
  let ?tcs = "filter (\<lambda>field. field \<in> set fs) [''tags'', ''categories'']"
  let ?doc0 = "AList.update ''objectID'' (own_prop r ''_id'') (pick r fs)"
  from run obtain doc1 where
    tax: "for_each (taxonomy_step r) ?tcs ?doc0 = Inr doc1"
    and flt: "for_each_log (field_step rt r) fwf doc1 t = (Inr doc, t')"
    by (auto simp: prepare_content_def Let_def split: sum.splits)
  have "''objectID'' \<notin> set ?tcs" by auto
  from for_each_taxonomy_other [OF tax this]
  have "map_of doc1 ''objectID'' = Some (own_prop r ''_id'')"
    by (simp add: update_conv')
  moreover have "map_of doc ''objectID'' = map_of doc1 ''objectID''"
    using flt colon by (rule for_each_log_field_step_protected) simp
  ultimately show "map_of doc ''objectID'' = Some (own_prop r ''_id'')" by simp
  assume field: "field \<in> {''tags'', ''categories''}" "field \<in> set fs"
  then have "field \<in> set ?tcs" by auto
  moreover have "distinct ?tcs" by simp
  ultimately obtain elements where
    d: "get_prop (own_prop r field) ''data'' = Inr (Arr elements)"
    and m: "map_of doc1 field = Some (Arr (map term_name elements))"
    using for_each_taxonomy_field [OF tax] by blast
  have "last field \<notin> set ''peryfg_''" using field(1) by auto
  with flt colon have "map_of doc field = map_of doc1 field"
    by (rule for_each_log_field_step_protected)
  with d m show "\<exists>elements. get_prop (own_prop r field) ''data'' = Inr (Arr elements) \<and>
        map_of doc field = Some (Arr (map term_name elements))"
    by auto
qed

lemma map_log_Inr:
  "map_log f xs t = (Inr ys, t') \<Longrightarrow>
   length ys = length xs \<and> (\<forall>i<length xs. \<exists>t1 t2. f (xs ! i) t1 = (Inr (ys ! i), t2))"
proof (induction xs arbitrary: t ys t')
  case Nil
  then show ?case by simp
next
  case (Cons x xs)
  from Cons.prems obtain y t1 ys' where
    fx: "f x t = (Inr y, t1)" and rest: "map_log f xs t1 = (Inr ys', t')" and ys: "ys = y # ys'"
    by (auto split: prod.splits sum.splits)
  from Cons.IH [OF rest] have len: "length ys' = length xs"
    and nth: "\<And>i. i < length xs \<Longrightarrow> \<exists>t1 t2. f (xs ! i) t1 = (Inr (ys' ! i), t2)"
    by simp_all
  have "\<exists>t1 t2. f ((x # xs) ! i) t1 = (Inr (ys ! i), t2)" if "i < length (x # xs)" for i
  proof (cases i)
    case 0
    with fx ys show ?thesis by auto
  next
    case (Suc j)
    with that have "j < length xs" by simp
    from nth [OF this] Suc ys show ?thesis by simp
  qed
  with len ys show ?case by simp
qed

text \<open>
  Claim C2. Whenever the transformer returns documents, the filter-bearing specs being
  specs with a colon as \<open>getFieldsWithFilters\<close> yields them, it returns one document per
  record, and the document of the \<open>i\<close>-th record holds that record's \<open>_id\<close> under
  \<open>objectID\<close>: also when \<open>objectID\<close> is among the plain fields and the record has a field
  of that name, and whatever the filter-bearing specs store.
\<close>

theorem prepareContents_objectID:
  assumes "prepareContents rt contents fields' fieldsWithFilters trace = (Inr docs, trace')"
    and "\<forall>field\<in>set fieldsWithFilters. CHR '':'' \<in> set field"
    and "i < length contents"
  shows "length docs = length contents \<and>
         map_of (docs ! i) ''objectID'' = Some (own_prop (contents ! i) ''_id'')"
proof -
  from assms(1) have "map_log (prepare_content rt fields' fieldsWithFilters) contents trace =
      (Inr docs, trace')"
    by (simp add: prepareContents_def)
  from map_log_Inr [OF this] assms(3) obtain t1 t2 where
    len: "length docs = length contents"
    and one: "prepare_content rt fields' fieldsWithFilters (contents ! i) t1 = (Inr (docs ! i), t2)"
    by blast
  from prepare_content_Inr(1) [OF one assms(2)] len show ?thesis by simp
qed

text \<open>
  Claim C3. Whenever the transformer returns documents and a taxonomy field, \<open>tags\<close> or
  \<open>categories\<close>, is among the plain fields, each record carries under that field a
  container whose \<open>data\<close> is an array of terms, and the record's document holds under that
  field the array of the names of those terms, in the same order and nothing else of them.
\<close>

theorem prepareContents_taxonomy_names:
  assumes "prepareContents rt contents fields' fieldsWithFilters trace = (Inr docs, trace')"
    and "\<forall>field\<in>set fieldsWithFilters. CHR '':'' \<in> set field"
    and "i < length contents"
    and "field \<in> {''tags'', ''categories''}" and "field \<in> set fields'"
  shows "\<exists>elements.
           get_prop (own_prop (contents ! i) field) ''data'' = Inr (Arr elements) \<and>
           map_of (docs ! i) field = Some (Arr (map term_name elements))"
proof -
  from assms(1) have "map_log (prepare_content rt fields' fieldsWithFilters) contents trace =
      (Inr docs, trace')"
    by (simp add: prepareContents_def)
  from map_log_Inr [OF this] assms(3) obtain t1 t2 where
    one: "prepare_content rt fields' fieldsWithFilters (contents ! i) t1 = (Inr (docs ! i), t2)"
    by blast
  from prepare_content_Inr(2) [OF one assms(2) assms(4) assms(5)] show ?thesis .
qed


theorem prepareContents_objectID_witness:
  "prepareContents sample_runtime [sample_post] [''title'', ''objectID''] [''content:strip''] [] =
     (Inr [[(''title'', Str ''First''), (''objectID'', Str ''p1''),
            (''contentStrip'', Str ''hi there'')]], []) \<and>
   CHR '':'' \<in> set ''content:strip'' \<and> (0::nat) < length [sample_post] \<and>
   map_of sample_post ''objectID'' = Some (Str ''mine'') \<and>
   map_of ([[(''title'', Str ''First''), (''objectID'', Str ''p1''),
             (''contentStrip'', Str ''hi there'')]] ! 0) ''objectID'' =
     Some (own_prop ([sample_post] ! 0) ''_id'') \<and>
   own_prop ([sample_post] ! 0) ''_id'' = Str ''p1''"
proof -
  have run: "prepareContents sample_runtime [sample_post] [''title'', ''objectID'']
      [''content:strip''] [] =
     (Inr [[(''title'', Str ''First''), (''objectID'', Str ''p1''),
            (''contentStrip'', Str ''hi there'')]], [])"
    by code_simp
  have colon: "\<forall>field\<in>set [''content:strip'']. CHR '':'' \<in> set field" by simp
  have i: "(0::nat) < length [sample_post]" by simp
  have mine: "map_of sample_post ''objectID'' = Some (Str ''mine'')"
    by (simp add: sample_post_def)
  have id: "own_prop ([sample_post] ! 0) ''_id'' = Str ''p1''"
    by (simp add: sample_post_def own_prop_def)
  from prepareContents_objectID [OF run colon i] run i mine id show ?thesis by simp
qed

theorem prepareContents_taxonomy_names_witness:
  "prepareContents sample_runtime [sample_post] [''title'', ''tags''] [''content:strip''] [] =
     (Inr [[(''title'', Str ''First''), (''tags'', Arr [Str ''a'', Str ''b'']),
            (''objectID'', Str ''p1''), (''contentStrip'', Str ''hi there'')]], []) \<and>
   CHR '':'' \<in> set ''content:strip'' \<and> (0::nat) < length [sample_post] \<and>
   ''tags'' \<in> set [''title'', ''tags''] \<and>
   get_prop (own_prop ([sample_post] ! 0) ''tags'') ''data'' =
     Inr (Arr [Obj [(''name'', Str ''a''), (''_id'', Str ''t1'')],
               Obj [(''name'', Str ''b''), (''_id'', Str ''t2'')]]) \<and>
   (\<exists>elements.
      get_prop (own_prop ([sample_post] ! 0) ''tags'') ''data'' = Inr (Arr elements) \<and>
      map_of ([[(''title'', Str ''First''), (''tags'', Arr [Str ''a'', Str ''b'']),
                (''objectID'', Str ''p1''), (''contentStrip'', Str ''hi there'')]] ! 0) ''tags'' =
        Some (Arr (map term_name elements)))"
proof -
  have run: "prepareContents sample_runtime [sample_post] [''title'', ''tags'']
      [''content:strip''] [] =
     (Inr [[(''title'', Str ''First''), (''tags'', Arr [Str ''a'', Str ''b'']),
            (''objectID'', Str ''p1''), (''contentStrip'', Str ''hi there'')]], [])"
    by code_simp
  have colon: "\<forall>field\<in>set [''content:strip'']. CHR '':'' \<in> set field" by simp
  have i: "(0::nat) < length [sample_post]" by simp
  have f1: "''tags'' \<in> {''tags'', ''categories''}" by simp
  have f2: "''tags'' \<in> set [''title'', ''tags'']" by simp
  have d: "get_prop (own_prop ([sample_post] ! 0) ''tags'') ''data'' =
     Inr (Arr [Obj [(''name'', Str ''a''), (''_id'', Str ''t1'')],
               Obj [(''name'', Str ''b''), (''_id'', Str ''t2'')]])"
    by (simp add: sample_post_def own_prop_def get_prop_def)
  from prepareContents_taxonomy_names [OF run colon i f1 f2] run i f2 d show ?thesis by simp
qed

lemma for_each_fails:
  "x \<in> set xs \<Longrightarrow> (\<And>s. \<exists>e. f x s = Inl e) \<Longrightarrow> \<exists>e. for_each f xs s = Inl e"
proof (induction xs arbitrary: s)
  case Nil
  then show ?case by simp
next
  case (Cons y ys)
  show ?case
  proof (cases "f y s")
    case (Inl e)
    then show ?thesis by simp
  next
    case (Inr s')
    with Cons.prems(2) have "x \<noteq> y" by (metis sum.distinct(1))
    with Cons.prems(1) have "x \<in> set ys" by simp
    from Cons.IH [OF this Cons.prems(2)] Inr show ?thesis by simp
  qed
qed

lemma map_log_fails:
  "x \<in> set xs \<Longrightarrow> (\<And>t. \<exists>e. fst (f x t) = Inl e) \<Longrightarrow> \<exists>e. fst (map_log f xs t) = Inl e"
proof (induction xs arbitrary: t)
  case Nil
  then show ?case by simp
next
  case (Cons y ys)
  obtain r1 t1 where fy: "f y t = (r1, t1)" by (cases "f y t")
  show ?case
  proof (cases r1)
    case (Inl e)
    with fy show ?thesis by simp
  next
    case (Inr d)
    with fy Cons.prems(2) [of t] have "x \<noteq> y" by auto
    with Cons.prems(1) have "x \<in> set ys" by simp
    from Cons.IH [OF this Cons.prems(2), of t1] obtain e where "fst (map_log f ys t1) = Inl e"
      by blast
    with fy Inr show ?thesis by (auto split: prod.splits sum.splits)
  qed
qed

text \<open>
  Claim C4 does not hold of the code. The taxonomy loop reads \<open>initialContent[field].data\<close>
  for every selected taxonomy field without asking whether the record has the field, as
  \<open>pick\<close> and the filter loop do. A single record without a selected taxonomy field makes
  the whole transformation throw: no sequence of documents is returned.
\<close>

theorem prepareContents_missing_taxonomy_field:
  assumes "initialContent \<in> set contents"
    and "field \<in> {''tags'', ''categories''}" and "field \<in> set fields'"
    and "map_of initialContent field = None"
  shows "\<exists>e. fst (prepareContents rt contents fields' fieldsWithFilters trace) = Inl e"
proof -
  let ?tcs = "filter (\<lambda>field. field \<in> set fields') [''tags'', ''categories'']"
  have step: "\<exists>e. taxonomy_step initialContent field doc = Inl e" for doc
    using assms(4) by (simp add: taxonomy_step_def own_prop_def get_prop_def)
  have "field \<in> set ?tcs" using assms(2,3) by auto
  from for_each_fails [of field ?tcs "taxonomy_step initialContent", OF this step]
  obtain e where e: "for_each (taxonomy_step initialContent) ?tcs
      (AList.update ''objectID'' (own_prop initialContent ''_id'') (pick initialContent fields')) =
      Inl e"
    by blast
  have "\<exists>e. fst (prepare_content rt fields' fieldsWithFilters initialContent t) = Inl e" for t
    unfolding prepare_content_def Let_def e by simp
  from map_log_fails [of initialContent contents "prepare_content rt fields' fieldsWithFilters",
      OF assms(1) this]
  show ?thesis by (simp add: prepareContents_def)
qed

theorem prepareContents_missing_taxonomy_field_witness:
  "sample_page \<in> set [sample_post, sample_page] \<and> ''tags'' \<in> set [''title'', ''tags''] \<and>
   map_of sample_page ''tags'' = None \<and>
   prepareContents sample_runtime [sample_post, sample_page] [''title'', ''tags''] [] [] =
     (Inl TypeError, [])"
proof -
  have h1: "sample_page \<in> set [sample_post, sample_page]" by simp
  have h2: "''tags'' \<in> {''tags'', ''categories''}" by simp
  have h3: "''tags'' \<in> set [''title'', ''tags'']" by simp
  have h4: "map_of sample_page ''tags'' = None" by (simp add: sample_page_def)
  have v: "prepareContents sample_runtime [sample_post, sample_page] [''title'', ''tags''] [] [] =
     (Inl TypeError, [])"
    by code_simp
  from prepareContents_missing_taxonomy_field [OF h1 h2 h3 h4, of sample_runtime "[]" "[]"]
    h1 h3 h4 v
  show ?thesis by simp
qed


lemma field_step_fst: "fst (field_step rt r field doc t) = fst (field_step rt r field doc t')"
  by (simp add: field_step_def Let_def split: option.splits sum.splits prod.splits)

lemma for_each_log_fst:
  assumes "\<And>x s t t'. fst (f x s t) = fst (f x s t')"
  shows "fst (for_each_log f xs s t) = fst (for_each_log f xs s t')"
proof (induction xs arbitrary: s t t')
  case Nil
  show ?case by simp
next
  case (Cons x xs)
  obtain r1 t1 where a: "f x s t = (r1, t1)" by (cases "f x s t")
  obtain r2 t2 where b: "f x s t' = (r2, t2)" by (cases "f x s t'")
  from assms [of x s t t'] a b have eq: "r2 = r1" by simp
  show ?case
  proof (cases r1)
    case (Inl e)
    with a b eq show ?thesis by simp
  next
    case (Inr s')
    with a b eq Cons.IH [of s' t1 t2] show ?thesis by simp
  qed
qed

lemma for_each_log_append:
  "for_each_log f (xs @ ys) s t =
     (case for_each_log f xs s t of
        (Inl e, t1) \<Rightarrow> (Inl e, t1)
      | (Inr s1, t1) \<Rightarrow> for_each_log f ys s1 t1)"
proof (induction xs arbitrary: s t)
  case Nil
  show ?case by simp
next
  case (Cons x xs)
  obtain r1 t1 where a: "f x s t = (r1, t1)" by (cases "f x s t")
  show ?case
  proof (cases r1)
    case (Inl e)
    with a show ?thesis by simp
  next
    case (Inr s')
    with a Cons.IH [of s' t1] show ?thesis by simp
  qed
qed

lemma for_each_log_skip_absent:
  assumes "map_of r (fst (spec_parse field)) = None" and "global_hexo rt"
  shows "fst (for_each_log (field_step rt r) (before @ field # after) doc t) =
         fst (for_each_log (field_step rt r) (before @ after) doc t)"
proof -
  obtain r1 t1 where a: "for_each_log (field_step rt r) before doc t = (r1, t1)"
    by (cases "for_each_log (field_step rt r) before doc t")
  show ?thesis
  proof (cases r1)
    case (Inl e)
    with a show ?thesis by (simp add: for_each_log_append)
  next
    case (Inr doc1)
    have "fst (for_each_log (field_step rt r) after doc1
          (t1 @ [Warn (No_field (own_prop r ''title'') (fst (spec_parse field)))])) =
        fst (for_each_log (field_step rt r) after doc1 t1)"
      by (rule for_each_log_fst) (rule field_step_fst)
    with a Inr field_step_absent [OF assms(1), of rt] assms(2) show ?thesis
      by (simp add: for_each_log_append)
  qed
qed

lemma field_step_keys:
  assumes "field_step rt r field doc t = (Inr doc', t')"
  shows "fst ` set doc' \<subseteq> insert (spec_key (spec_parse field)) (fst ` set doc)"
    and "k \<noteq> spec_key (spec_parse field) \<Longrightarrow> map_of doc' k = map_of doc k"
proof -
  have "doc' = doc \<or> (\<exists>v. doc' = AList.update (spec_key (spec_parse field)) v doc)"
  proof (cases "map_of r (fst (spec_parse field))")
    case None
    from assms field_step_absent [OF None, of rt doc t] show ?thesis
      by (simp split: if_splits)
  next
    case (Some v)
    from assms field_step_carried [OF Some] show ?thesis by (auto split: sum.splits)
  qed
  then show "fst ` set doc' \<subseteq> insert (spec_key (spec_parse field)) (fst ` set doc)"
  proof (elim disjE exE)
    assume "doc' = doc"
    then show ?thesis by blast
  next
    fix v
    assume "doc' = AList.update (spec_key (spec_parse field)) v doc"
    then show ?thesis by (simp add: dom_update)
  qed
  assume "k \<noteq> spec_key (spec_parse field)"
  with \<open>doc' = doc \<or> _\<close> show "map_of doc' k = map_of doc k"
    by (auto simp: update_conv')
qed

lemma for_each_log_field_step_keys:
  assumes "for_each_log (field_step rt r) fwf doc t = (Inr doc', t')"
  shows "fst ` set doc' \<subseteq> (\<lambda>s. spec_key (spec_parse s)) ` set fwf \<union> fst ` set doc"
    and "\<forall>s\<in>set fwf. spec_key (spec_parse s) \<noteq> k \<Longrightarrow> map_of doc' k = map_of doc k"
  using assms
proof (induction fwf arbitrary: doc t)
  case Nil
  {
    case 1
    then show ?case by simp
  next
    case 2
    then show ?case by simp
  }
next
  case (Cons field fwf)
  {
    case 1
    obtain r1 t1 where s: "field_step rt r field doc t = (r1, t1)"
      by (cases "field_step rt r field doc t")
    with 1 obtain doc1 where r1: "r1 = Inr doc1" by (cases r1) auto
    from 1 s r1 have rest: "for_each_log (field_step rt r) fwf doc1 t1 = (Inr doc', t')" by simp
    from field_step_keys(1) [OF s [unfolded r1]] Cons.IH(1) [OF rest] show ?case
      unfolding list.set image_insert by blast
  next
    case 2
    obtain r1 t1 where s: "field_step rt r field doc t = (r1, t1)"
      by (cases "field_step rt r field doc t")
    with 2(2) obtain doc1 where r1: "r1 = Inr doc1" by (cases r1) auto
    from 2(2) s r1 have rest: "for_each_log (field_step rt r) fwf doc1 t1 = (Inr doc', t')" by simp
    from 2(1) have "k \<noteq> spec_key (spec_parse field)" by auto
    from field_step_keys(2) [OF s [unfolded r1] this] Cons.IH(2) [OF _ rest] 2(1)
    show ?case by simp
  }
qed


lemma pick_keys: "fst ` set (pick r fs) \<subseteq> set fs"
proof -
  let ?step = "\<lambda>newObject attribute.
      case map_of r attribute of
        Some v \<Rightarrow> AList.update attribute v newObject
      | None \<Rightarrow> newObject"
  have "fst ` set (foldl ?step acc fs) \<subseteq> fst ` set acc \<union> set fs" for acc
  proof (induction fs arbitrary: acc)
    case Nil
    show ?case by simp
  next
    case (Cons a fs)
    have "fst ` set (?step acc a) \<subseteq> insert a (fst ` set acc)"
      by (cases "map_of r a") (simp_all add: dom_update subset_insertI)
    with Cons.IH [of "?step acc a"] show ?case
      unfolding foldl_Cons list.set by blast
  qed
  from this [of "[]"] show ?thesis by (simp add: pick_def)
qed

lemma for_each_taxonomy_keys:
  "for_each (taxonomy_step r) fs doc = Inr doc' \<Longrightarrow> fst ` set doc' \<subseteq> set fs \<union> fst ` set doc"
proof (induction fs arbitrary: doc)
  case Nil
  then show ?case by simp
next
  case (Cons f fs)
  from Cons.prems obtain doc1 where
    s: "taxonomy_step r f doc = Inr doc1" and rest: "for_each (taxonomy_step r) fs doc1 = Inr doc'"
    by (auto split: sum.splits)
  from taxonomy_step_Inr [OF s] obtain elements where
    "doc1 = AList.update f (Arr (map term_name elements)) doc"
    by blast
  then have "fst ` set doc1 \<subseteq> insert f (fst ` set doc)"
    by (simp add: dom_update)
  with Cons.IH [OF rest] show ?case
    unfolding list.set by blast
qed

lemma prepare_content_keys:
  assumes "prepare_content rt fs fwf r t = (Inr doc, t')"
  shows "fst ` set doc \<subseteq>
           set fs \<union> {''objectID''} \<union> (\<lambda>s. spec_key (spec_parse s)) ` set fwf"
proof -
  let ?tcs = "filter (\<lambda>field. field \<in> set fs) [''tags'', ''categories'']"
  let ?doc0 = "AList.update ''objectID'' (own_prop r ''_id'') (pick r fs)"
  from assms obtain doc1 where
    tax: "for_each (taxonomy_step r) ?tcs ?doc0 = Inr doc1"
    and flt: "for_each_log (field_step rt r) fwf doc1 t = (Inr doc, t')"
    by (auto simp: prepare_content_def Let_def split: sum.splits)
  have k0: "fst ` set ?doc0 \<subseteq> set fs \<union> {''objectID''}"
    using pick_keys [of r fs] by (simp add: dom_update) blast
  have "set ?tcs \<subseteq> set fs" by auto
  with for_each_taxonomy_keys [OF tax] k0
  have k1: "fst ` set doc1 \<subseteq> set fs \<union> {''objectID''}" by blast
  from for_each_log_field_step_keys(1) [OF flt] k1 show ?thesis by blast
qed

lemma prepare_content_skip_absent:
  assumes "map_of r (fst (spec_parse field)) = None" and "global_hexo rt"
  shows "fst (prepare_content rt fs (before @ field # after) r t) =
         fst (prepare_content rt fs (before @ after) r t)"
  unfolding prepare_content_def Let_def
  by (simp add: for_each_log_skip_absent [OF assms] split: sum.splits)

lemma prepare_content_no_key:
  assumes absent: "map_of r (fst (spec_parse field)) = None" and bound: "global_hexo rt"
    and run: "prepare_content rt fs (before @ field # after) r t = (Inr doc, t')"
    and plain: "k \<notin> set fs" "k \<noteq> ''objectID''"
    and others: "\<forall>s\<in>set (before @ after). spec_key (spec_parse s) \<noteq> k"
  shows "map_of doc k = None"
proof -
  from prepare_content_skip_absent [OF absent bound, of fs before after t] run
  have "fst (prepare_content rt fs (before @ after) r t) = Inr doc" by simp
  then obtain t2 where "prepare_content rt fs (before @ after) r t = (Inr doc, t2)"
    by (cases "prepare_content rt fs (before @ after) r t") simp
  from prepare_content_keys [OF this]
  have sub: "fst ` set doc \<subseteq>
      set fs \<union> {''objectID''} \<union> (\<lambda>s. spec_key (spec_parse s)) ` set (before @ after)" .
  have "k \<notin> fst ` set doc"
  proof
    assume "k \<in> fst ` set doc"
    with sub have "k \<in> set fs \<union> {''objectID''} \<union>
        (\<lambda>s. spec_key (spec_parse s)) ` set (before @ after)"
      by (rule subsetD)
    with plain have "k \<in> (\<lambda>s. spec_key (spec_parse s)) ` set (before @ after)"
      by simp
    then obtain s where "s \<in> set (before @ after)" and "k = spec_key (spec_parse s)"
      by (rule imageE)
    with others show False by blast
  qed
  then show ?thesis by (simp add: map_of_eq_None_iff)
qed

lemma prepare_content_stores:
  assumes run: "prepare_content rt fs (before @ field # after) r t = (Inr doc, t')"
    and carried: "map_of r (fst (spec_parse field)) = Some fv"
    and later: "\<forall>s\<in>set after. spec_key (spec_parse s) \<noteq> spec_key (spec_parse field)"
  shows "\<exists>v. spec_chain rt fv (snd (spec_parse field)) = Inr v \<and>
           map_of doc (spec_key (spec_parse field)) = Some v"
proof -
  let ?F = "field_step rt r"
  from run obtain doc0 where
    flt: "for_each_log ?F (before @ field # after) doc0 t = (Inr doc, t')"
    by (auto simp: prepare_content_def Let_def split: sum.splits)
  obtain r1 t1 where b: "for_each_log ?F before doc0 t = (r1, t1)"
    by (cases "for_each_log ?F before doc0 t")
  with flt obtain d1 where r1: "r1 = Inr d1"
    by (cases r1) (auto simp: for_each_log_append)
  with flt b have rest: "for_each_log ?F (field # after) d1 t1 = (Inr doc, t')"
    by (simp add: for_each_log_append)
  obtain r2 t2 where s: "?F field d1 t1 = (r2, t2)" by (cases "?F field d1 t1")
  with rest obtain d2 where r2: "r2 = Inr d2" by (cases r2) auto
  with rest s have tail: "for_each_log ?F after d2 t2 = (Inr doc, t')" by simp
  from s r2 field_step_carried [OF carried, of rt d1 t1] obtain v where
    chain: "spec_chain rt fv (snd (spec_parse field)) = Inr v"
    and d2: "d2 = AList.update (spec_key (spec_parse field)) v d1"
    by (auto split: sum.splits)
  from for_each_log_field_step_keys(2) [OF tail later] d2
  have "map_of doc (spec_key (spec_parse field)) = Some v"
    by (simp add: update_conv')
  with chain show ?thesis by blast
qed

lemma prepare_content_unbound:
  assumes absent: "map_of r (fst (spec_parse field)) = None" and unbound: "\<not> global_hexo rt"
  shows "\<exists>e. fst (prepare_content rt fs (before @ field # after) r t) = Inl e"
proof -
  let ?F = "field_step rt r"
  let ?tax = "for_each (taxonomy_step r) (filter (\<lambda>field. field \<in> set fs) [''tags'', ''categories''])
      (AList.update ''objectID'' (own_prop r ''_id'') (pick r fs))"
  have loop: "\<exists>e. fst (for_each_log ?F (before @ field # after) doc t) = Inl e" for doc
  proof -
    obtain r1 t1 where b: "for_each_log ?F before doc t = (r1, t1)"
      by (cases "for_each_log ?F before doc t")
    show ?thesis
    proof (cases r1)
      case (Inl e)
      with b show ?thesis by (simp add: for_each_log_append)
    next
      case (Inr d1)
      with b field_step_absent [OF absent, of rt d1 t1] unbound show ?thesis
        by (simp add: for_each_log_append)
    qed
  qed
  show ?thesis
  proof (cases ?tax)
    case (Inl e)
    then show ?thesis unfolding prepare_content_def Let_def by simp
  next
    case (Inr doc)
    with loop [of doc] show ?thesis unfolding prepare_content_def Let_def by simp
  qed
qed

text \<open>
  Claim C5 does not hold of the code as the module stands. For a filter-bearing spec whose
  field the record does not have, the step of the filter loop calls \<open>hexo.log.warn\<close>, and the
  module binds no \<open>hexo\<close> for it. Where the global scope binds none either, the step throws
  a \<open>ReferenceError\<close>, and the transformation of every sequence that contains the record
  ends with an exception: the condition is fatal. Only where a global \<open>hexo\<close> with a logger
  exists does the step do what the claim says: it appends one warning, made of the
  record's title and the field name, returns the document as it received it and does not
  throw; the record is transformed to the same document, or fails with the same exception,
  as if the spec were not in the list; and the document has no property under the key of
  that spec, unless that key is \<open>objectID\<close> or a plain field or another spec has put one
  there.
\<close>

theorem field_step_missing_field:
  assumes "map_of initialContent (fst (spec_parse field)) = None"
  shows "(\<not> global_hexo rt \<longrightarrow>
            field_step rt initialContent field contentToIndex trace =
              (Inl ReferenceError, trace) \<and>
            (initialContent \<in> set contents \<longrightarrow>
               (\<exists>e. fst (prepareContents rt contents fields' (before @ field # after) trace) =
                  Inl e))) \<and>
         (global_hexo rt \<longrightarrow>
            field_step rt initialContent field contentToIndex trace =
              (Inr contentToIndex,
               trace @
               [Warn (No_field (own_prop initialContent ''title'') (fst (spec_parse field)))]) \<and>
            fst (prepare_content rt fields' (before @ field # after) initialContent trace) =
              fst (prepare_content rt fields' (before @ after) initialContent trace) \<and>
            (\<forall>doc trace'.
               prepare_content rt fields' (before @ field # after) initialContent trace =
                 (Inr doc, trace') \<and>
               spec_key (spec_parse field) \<notin> set fields' \<and>
               spec_key (spec_parse field) \<noteq> ''objectID'' \<and>
               (\<forall>s\<in>set (before @ after).
                  spec_key (spec_parse s) \<noteq> spec_key (spec_parse field)) \<longrightarrow>
               map_of doc (spec_key (spec_parse field)) = None))"
proof (intro conjI allI impI)
  assume unbound: "\<not> global_hexo rt"
  show "field_step rt initialContent field contentToIndex trace = (Inl ReferenceError, trace)"
    using field_step_absent [OF assms, of rt contentToIndex trace] unbound by simp
  assume member: "initialContent \<in> set contents"
  have "\<exists>e. fst (prepare_content rt fields' (before @ field # after) initialContent t) = Inl e"
    for t
    using assms unbound by (rule prepare_content_unbound)
  from map_log_fails [of initialContent contents
      "prepare_content rt fields' (before @ field # after)", OF member this]
  show "\<exists>e. fst (prepareContents rt contents fields' (before @ field # after) trace) = Inl e"
    by (simp add: prepareContents_def)
next
  assume bound: "global_hexo rt"
  show "field_step rt initialContent field contentToIndex trace =
      (Inr contentToIndex,
       trace @ [Warn (No_field (own_prop initialContent ''title'') (fst (spec_parse field)))])"
    using field_step_absent [OF assms, of rt contentToIndex trace] bound by simp
  show "fst (prepare_content rt fields' (before @ field # after) initialContent trace) =
      fst (prepare_content rt fields' (before @ after) initialContent trace)"
    using assms bound by (rule prepare_content_skip_absent)
  fix doc trace'
  assume h: "prepare_content rt fields' (before @ field # after) initialContent trace =
        (Inr doc, trace') \<and>
      spec_key (spec_parse field) \<notin> set fields' \<and>
      spec_key (spec_parse field) \<noteq> ''objectID'' \<and>
      (\<forall>s\<in>set (before @ after). spec_key (spec_parse s) \<noteq> spec_key (spec_parse field))"
  then show "map_of doc (spec_key (spec_parse field)) = None"
    using prepare_content_no_key [OF assms bound, of fields' before after trace doc trace'
        "spec_key (spec_parse field)"]
    by blast
qed

theorem field_step_missing_field_witness:
  "map_of sample_page (fst (spec_parse ''excerpt:strip'')) = None \<and>
   \<not> global_hexo (sample_runtime\<lparr>global_hexo := False\<rparr>) \<and>
   sample_page \<in> set [sample_page, sample_post] \<and>
   field_step (sample_runtime\<lparr>global_hexo := False\<rparr>) sample_page ''excerpt:strip''
       [(''objectID'', Str ''g1'')] [] =
     (Inl ReferenceError, []) \<and>
   prepareContents (sample_runtime\<lparr>global_hexo := False\<rparr>) [sample_page, sample_post]
       [''title''] ([] @ ''excerpt:strip'' # [''content:strip'']) [] =
     (Inl ReferenceError, []) \<and>
   global_hexo sample_runtime \<and>
   field_step sample_runtime sample_page ''excerpt:strip'' [(''objectID'', Str ''g1'')] [] =
     (Inr [(''objectID'', Str ''g1'')], [Warn (No_field (Str ''About'') ''excerpt'')]) \<and>
   prepareContents sample_runtime [sample_page, sample_post] [''title'']
       [''excerpt:strip'', ''content:strip''] [] =
     (Inr [[(''title'', Str ''About''), (''objectID'', Str ''g1''),
            (''contentStrip'', Str ''hello'')],
           [(''title'', Str ''First''), (''objectID'', Str ''p1''),
            (''contentStrip'', Str ''hi there'')]],
      [Warn (No_field (Str ''About'') ''excerpt''), Warn (No_field (Str ''First'') ''excerpt'')]) \<and>
   prepare_content sample_runtime [''title''] ([] @ ''excerpt:strip'' # [''content:strip''])
       sample_page [] =
     (Inr [(''title'', Str ''About''), (''objectID'', Str ''g1''),
           (''contentStrip'', Str ''hello'')],
      [Warn (No_field (Str ''About'') ''excerpt'')]) \<and>
   fst (prepare_content sample_runtime [''title''] ([] @ [''content:strip'']) sample_page []) =
     Inr [(''title'', Str ''About''), (''objectID'', Str ''g1''),
          (''contentStrip'', Str ''hello'')] \<and>
   spec_key (spec_parse ''excerpt:strip'') = ''excerptStrip'' \<and>
   spec_key (spec_parse ''excerpt:strip'') \<notin> set [''title''] \<and>
   spec_key (spec_parse ''content:strip'') \<noteq> spec_key (spec_parse ''excerpt:strip'') \<and>
   map_of [(''title'', Str ''About''), (''objectID'', Str ''g1''),
           (''contentStrip'', Str ''hello'')] (spec_key (spec_parse ''excerpt:strip'')) = None"
proof -
  have h: "map_of sample_page (fst (spec_parse ''excerpt:strip'')) = None"
    by code_simp
  have unbound: "\<not> global_hexo (sample_runtime\<lparr>global_hexo := False\<rparr>)"
    by simp
  have bound: "global_hexo sample_runtime"
    by (simp add: sample_runtime_def)
  have member: "sample_page \<in> set [sample_page, sample_post]"
    by simp
  have name: "fst (spec_parse ''excerpt:strip'') = ''excerpt''"
    by code_simp
  have key: "spec_key (spec_parse ''excerpt:strip'') = ''excerptStrip''"
    by code_simp
  have key2: "spec_key (spec_parse ''content:strip'') = ''contentStrip''"
    by code_simp
  have title: "own_prop sample_page ''title'' = Str ''About''"
    by code_simp
  have fail: "prepareContents (sample_runtime\<lparr>global_hexo := False\<rparr>)
       [sample_page, sample_post] [''title''] ([] @ ''excerpt:strip'' # [''content:strip'']) [] =
     (Inl ReferenceError, [])"
    by code_simp
  have run: "prepareContents sample_runtime [sample_page, sample_post] [''title'']
       [''excerpt:strip'', ''content:strip''] [] =
     (Inr [[(''title'', Str ''About''), (''objectID'', Str ''g1''),
            (''contentStrip'', Str ''hello'')],
           [(''title'', Str ''First''), (''objectID'', Str ''p1''),
            (''contentStrip'', Str ''hi there'')]],
      [Warn (No_field (Str ''About'') ''excerpt''), Warn (No_field (Str ''First'') ''excerpt'')])"
    by code_simp
  have one: "prepare_content sample_runtime [''title'']
       ([] @ ''excerpt:strip'' # [''content:strip'']) sample_page [] =
     (Inr [(''title'', Str ''About''), (''objectID'', Str ''g1''),
           (''contentStrip'', Str ''hello'')],
      [Warn (No_field (Str ''About'') ''excerpt'')])"
    by code_simp
  from field_step_missing_field [OF h, of "sample_runtime\<lparr>global_hexo := False\<rparr>"
      "[(''objectID'', Str ''g1'')]" "[]"]
    unbound
  have f1: "field_step (sample_runtime\<lparr>global_hexo := False\<rparr>) sample_page ''excerpt:strip''
       [(''objectID'', Str ''g1'')] [] = (Inl ReferenceError, [])"
    by blast
  from field_step_missing_field [OF h, of sample_runtime "[(''objectID'', Str ''g1'')]" "[]"
      "[sample_page, sample_post]" "[''title'']" "[]" "[''content:strip'']"]
    bound
  have f2: "field_step sample_runtime sample_page ''excerpt:strip'' [(''objectID'', Str ''g1'')] [] =
      (Inr [(''objectID'', Str ''g1'')],
       [Warn (No_field (own_prop sample_page ''title'') (fst (spec_parse ''excerpt:strip'')))])"
    and f3: "fst (prepare_content sample_runtime [''title'']
        ([] @ ''excerpt:strip'' # [''content:strip'']) sample_page []) =
      fst (prepare_content sample_runtime [''title''] ([] @ [''content:strip'']) sample_page [])"
    by simp_all
  from h unbound bound member name key key2 title fail run one f1 f2 f3
  show ?thesis by simp
qed

text \<open>
  Claim C6. For a filter-bearing spec whose field the record has, the step of the filter
  loop does what the specification says: it applies the filters of the spec from left to
  right, the first to the field's value and each other one to the result of the one before
  it as first argument, followed by its own arguments from the spec; an exception of a
  filter or an unknown filter ends the transformation; otherwise the final value is stored
  under the field name followed by the capitalized filter names in order. The document
  returned for the record holds that value under that key, unless a later spec stores
  under the same key. With a \<open>strip\<close> that turns \<open><b>hi</b>\<close> into \<open>hi\<close>, the spec
  \<open>content:strip\<close> stores \<open>hi\<close> under \<open>contentStrip\<close>.
\<close>

theorem field_step_filter_chain:
  "(map_of initialContent (fst (spec_parse field)) = Some fieldValue \<longrightarrow>
      field_step rt initialContent field contentToIndex trace =
        (case spec_chain rt fieldValue (snd (spec_parse field)) of
           Inl e \<Rightarrow> (Inl e, trace)
         | Inr v \<Rightarrow>
             (Inr (AList.update (spec_key (spec_parse field)) v contentToIndex), trace))) \<and>
   (\<forall>doc trace'.
      map_of initialContent (fst (spec_parse field)) = Some fieldValue \<and>
      prepare_content rt fields' (before @ field # after) initialContent trace =
        (Inr doc, trace') \<and>
      (\<forall>s\<in>set after. spec_key (spec_parse s) \<noteq> spec_key (spec_parse field)) \<longrightarrow>
      (\<exists>v. spec_chain rt fieldValue (snd (spec_parse field)) = Inr v \<and>
           map_of doc (spec_key (spec_parse field)) = Some v)) \<and>
   (striptags rt [Str ''<b>hi</b>''] = Inr (Str ''hi'') \<longrightarrow>
      prepareContents rt [[(''_id'', Str ''p1''), (''content'', Str ''<b>hi</b>'')]] []
          [''content:strip''] [] =
        (Inr [[(''objectID'', Str ''p1''), (''contentStrip'', Str ''hi'')]], []))"
proof (intro conjI impI allI)
  assume "map_of initialContent (fst (spec_parse field)) = Some fieldValue"
  then show "field_step rt initialContent field contentToIndex trace =
      (case spec_chain rt fieldValue (snd (spec_parse field)) of
         Inl e \<Rightarrow> (Inl e, trace)
       | Inr v \<Rightarrow> (Inr (AList.update (spec_key (spec_parse field)) v contentToIndex), trace))"
    by (rule field_step_carried)
next
  fix doc trace'
  assume h: "map_of initialContent (fst (spec_parse field)) = Some fieldValue \<and>
      prepare_content rt fields' (before @ field # after) initialContent trace =
        (Inr doc, trace') \<and>
      (\<forall>s\<in>set after. spec_key (spec_parse s) \<noteq> spec_key (spec_parse field))"
  then show "\<exists>v. spec_chain rt fieldValue (snd (spec_parse field)) = Inr v \<and>
      map_of doc (spec_key (spec_parse field)) = Some v"
    using prepare_content_stores [of rt fields' before field after initialContent trace doc
        trace' fieldValue]
    by blast
next
  assume strip: "striptags rt [Str ''<b>hi</b>''] = Inr (Str ''hi'')"
  let ?r = "[(''_id'', Str ''p1''), (''content'', Str ''<b>hi</b>'')]"
  have parse: "spec_parse ''content:strip'' = (''content'', [(''strip'', [])])"
    by code_simp
  have key: "spec_key (''content'', [(''strip'', [])]) = ''contentStrip''"
    by code_simp
  have "map_of ?r (fst (spec_parse ''content:strip'')) = Some (Str ''<b>hi</b>'')"
    by (simp add: parse)
  from field_step_carried [OF this, of rt]
  have step: "field_step rt ?r ''content:strip'' doc t =
      (Inr (AList.update ''contentStrip'' (Str ''hi'') doc), t)" for doc t
    using strip by (simp add: parse key FILTER_FUNCTIONS_def)
  show "prepareContents rt [?r] [] [''content:strip''] [] =
      (Inr [[(''objectID'', Str ''p1''), (''contentStrip'', Str ''hi'')]], [])"
    by (simp add: prepareContents_def prepare_content_def Let_def pick_def own_prop_def step)
qed

theorem field_step_filter_chain_witness:
  "map_of sample_post (fst (spec_parse ''content:strip:truncate,0,4'')) =
     Some (Str ''<b>hi</b> there'') \<and>
   spec_parse ''content:strip:truncate,0,4'' =
     (''content'', [(''strip'', []), (''truncate'', [''0'', ''4''])]) \<and>
   spec_key (spec_parse ''content:strip:truncate,0,4'') = ''contentStripTruncate'' \<and>
   spec_chain sample_runtime (Str ''<b>hi</b> there'')
       (snd (spec_parse ''content:strip:truncate,0,4'')) = Inr (Str ''hi t'') \<and>
   field_step sample_runtime sample_post ''content:strip:truncate,0,4'' [] [] =
     (Inr [(''contentStripTruncate'', Str ''hi t'')], []) \<and>
   prepare_content sample_runtime [] ([''title:strip''] @ ''content:strip:truncate,0,4'' #
       [''content:truncate,0,2'']) sample_post [] =
     (Inr [(''objectID'', Str ''p1''), (''titleStrip'', Str ''First''),
           (''contentStripTruncate'', Str ''hi t''), (''contentTruncate'', Str ''<b'')], []) \<and>
   spec_key (spec_parse ''content:truncate,0,2'') \<noteq>
     spec_key (spec_parse ''content:strip:truncate,0,4'') \<and>
   map_of [(''objectID'', Str ''p1''), (''titleStrip'', Str ''First''),
           (''contentStripTruncate'', Str ''hi t''), (''contentTruncate'', Str ''<b'')]
       (spec_key (spec_parse ''content:strip:truncate,0,4'')) = Some (Str ''hi t'') \<and>
   striptags sample_runtime [Str ''<b>hi</b>''] = Inr (Str ''hi'') \<and>
   prepareContents sample_runtime [[(''_id'', Str ''p1''), (''content'', Str ''<b>hi</b>'')]] []
       [''content:strip''] [] =
     (Inr [[(''objectID'', Str ''p1''), (''contentStrip'', Str ''hi'')]], [])"
proof -
  have h1: "map_of sample_post (fst (spec_parse ''content:strip:truncate,0,4'')) =
     Some (Str ''<b>hi</b> there'')"
    by code_simp
  have p: "spec_parse ''content:strip:truncate,0,4'' =
     (''content'', [(''strip'', []), (''truncate'', [''0'', ''4''])])"
    by code_simp
  have k: "spec_key (spec_parse ''content:strip:truncate,0,4'') = ''contentStripTruncate''"
    by code_simp
  have k2: "spec_key (spec_parse ''content:truncate,0,2'') = ''contentTruncate''"
    by code_simp
  have c: "spec_chain sample_runtime (Str ''<b>hi</b> there'')
       (snd (spec_parse ''content:strip:truncate,0,4'')) = Inr (Str ''hi t'')"
    by code_simp
  have one: "prepare_content sample_runtime [] ([''title:strip''] @
       ''content:strip:truncate,0,4'' # [''content:truncate,0,2'']) sample_post [] =
     (Inr [(''objectID'', Str ''p1''), (''titleStrip'', Str ''First''),
           (''contentStripTruncate'', Str ''hi t''), (''contentTruncate'', Str ''<b'')], [])"
    by code_simp
  have h2: "striptags sample_runtime [Str ''<b>hi</b>''] = Inr (Str ''hi'')"
    by code_simp
  from field_step_filter_chain [of sample_post "''content:strip:truncate,0,4''"
      "Str ''<b>hi</b> there''" sample_runtime "[]" "[]" "[]" "[''title:strip'']"
      "[''content:truncate,0,2'']"] h1 p k k2 c one h2
  show ?thesis by simp
qed

section \<open>Properties of the orchestrator\<close>

lemma field_step_trace:
  "field_step rt r field doc t = (res, t') \<Longrightarrow> \<exists>ws. t' = t @ map Warn ws"
proof -
  assume run: "field_step rt r field doc t = (res, t')"
  show ?thesis
  proof (cases "map_of r (hd (split CHR '':'' field))")
    case None
    with run have "t' = t @ map Warn [No_field (own_prop r ''title'') (hd (split CHR '':'' field))] \<or>
        t' = t @ map Warn []"
      by (auto simp: field_step_def Let_def split: if_splits)
    then show ?thesis by blast
  next
    case (Some v)
    with run have "t' = t @ map Warn []"
      by (auto simp: field_step_def Let_def split: sum.splits prod.splits)
    then show ?thesis by blast
  qed
qed

lemma for_each_log_trace:
  assumes step: "\<And>x s t res t'. f x s t = (res, t') \<Longrightarrow> \<exists>ws. t' = t @ map Warn ws"
  shows "for_each_log f xs s t = (res, t') \<Longrightarrow> \<exists>ws. t' = t @ map Warn ws"
proof (induction xs arbitrary: s t)
  case Nil
  then have "t' = t @ map Warn []" by simp
  then show ?case by blast
next
  case (Cons x xs)
  obtain r1 t1 where f: "f x s t = (r1, t1)" by (cases "f x s t")
  from step [OF f] obtain ws1 where t1: "t1 = t @ map Warn ws1" by blast
  show ?case
  proof (cases r1)
    case (Inl e)
    with Cons.prems f have "t' = t1" by simp
    with t1 show ?thesis by blast
  next
    case (Inr s')
    with Cons.prems f have "for_each_log f xs s' t1 = (res, t')" by simp
    from Cons.IH [OF this] obtain ws2 where "t' = t1 @ map Warn ws2" by blast
    with t1 have "t' = t @ map Warn (ws1 @ ws2)" by simp
    then show ?thesis by blast
  qed
qed

lemma prepare_content_trace:
  "prepare_content rt fs fwf r t = (res, t') \<Longrightarrow> \<exists>ws. t' = t @ map Warn ws"
proof -
  assume run: "prepare_content rt fs fwf r t = (res, t')"
  let ?tax = "for_each (taxonomy_step r) (filter (\<lambda>field. field \<in> set fs) [''tags'', ''categories''])
      (AList.update ''objectID'' (own_prop r ''_id'') (pick r fs))"
  show ?thesis
  proof (cases ?tax)
    case (Inl e)
    with run have "t' = t @ map Warn []" by (simp add: prepare_content_def Let_def)
    then show ?thesis by blast
  next
    case (Inr doc)
    with run have "for_each_log (field_step rt r) fwf doc t = (res, t')"
      by (simp add: prepare_content_def Let_def)
    then show ?thesis
      by (rule for_each_log_trace [rotated]) (rule field_step_trace)
  qed
qed

lemma map_log_trace:
  assumes step: "\<And>x t res t'. f x t = (res, t') \<Longrightarrow> \<exists>ws. t' = t @ map Warn ws"
  shows "map_log f xs t = (res, t') \<Longrightarrow> \<exists>ws. t' = t @ map Warn ws"
proof (induction xs arbitrary: t res t')
  case Nil
  then have "t' = t @ map Warn []" by simp
  then show ?case by blast
next
  case (Cons x xs)
  obtain r1 t1 where f: "f x t = (r1, t1)" by (cases "f x t")
  from step [OF f] obtain ws1 where t1: "t1 = t @ map Warn ws1" by blast
  show ?case
  proof (cases r1)
    case (Inl e)
    with Cons.prems f have "t' = t1" by simp
    with t1 show ?thesis by blast
  next
    case (Inr y)
    obtain r2 t2 where m: "map_log f xs t1 = (r2, t2)" by (cases "map_log f xs t1")
    from Cons.IH [OF m] obtain ws2 where t2: "t2 = t1 @ map Warn ws2" by blast
    from Cons.prems f Inr m have "t' = t2" by (auto split: sum.splits)
    with t1 t2 have "t' = t @ map Warn (ws1 @ ws2)" by simp
    then show ?thesis by blast
  qed
qed

lemma prepareContents_trace:
  assumes "prepareContents rt contents fs fwf t = (res, t')"
  shows "\<exists>ws. t' = t @ map Warn ws"
proof -
  from assms have m: "map_log (prepare_content rt fs fwf) contents t = (res, t')"
    by (simp add: prepareContents_def)
  show ?thesis
    by (rule map_log_trace [where f = "prepare_content rt fs fwf", OF _ m])
      (rule prepare_content_trace)
qed

text \<open>
  Claim C9. When generation and loading succeed and the store yields no published post, the
  run returns through the callback without an error, and all it has done is to generate,
  load, query the posts and log that there is none: the pages are neither queried nor
  transformed, and no clear and no upload request is issued, whatever the configuration,
  the pages and the arguments are.
\<close>

theorem algoliaCommand_no_posts:
  assumes "call_generate hexo = None" and "database_load hexo = None"
    and "published_posts hexo = []"
  shows "algoliaCommand rt hexo index args =
           Some (Callback None, [Generate, Load, Find_posts, Info No_post])"
  using assms by (simp add: algoliaCommand_def Let_def)


lemma upload_result:
  "upload index chunks n t =
     (case List.map_filter (saveObjects index) chunks of
        [] \<Rightarrow>
          (Completed, t @ [Info Indexing] @ map SaveObjects chunks @ [Info (Indexed n)])
      | e # es \<Rightarrow>
          (Callback (Some e),
           t @ [Info Indexing] @ map SaveObjects chunks @ [Info (Index_error e)]))"
  by (simp add: upload_def Let_def split: list.splits)

lemma clear_requested_iff:
  "clear_requested args \<longleftrightarrow>
     truthy args \<and> (\<forall>ps. args = Obj ps \<longrightarrow> \<not> truthy (own_prop ps ''n''))"
  by (cases args) (simp_all add: clear_requested_def truthy_def get_prop_def)

text \<open>
  Claim C8, amended. Take a run that reaches the clear step: generation and loading succeed,
  there is a post, posts and pages are transformed without an exception, the configured
  chunk size is not negative and the index handle is obtained. The run then ends, and up to
  that step it has issued no clear and no upload request. The index is cleared exactly
  when the arguments are given and, if they are an object, its \<open>n\<close> flag is not set
  (\<open>clear_requested\<close>). In that case a clear request is issued first: when it fails the run
  returns that failure through the callback and issues no upload; when it succeeds one
  upload request per chunk follows. Otherwise, that is with the flag set or with no
  arguments at all, no clear request is issued in the whole run and one upload request per
  chunk follows. In both cases the chunks uploaded concatenate to the transformed posts
  followed by the transformed pages, and after the uploads the run only logs: the count of
  posts when every upload succeeded, and else the first failure, which it returns through
  the callback.
\<close>

theorem algoliaCommand_clear_then_upload:
  assumes gen: "call_generate hexo = None" and load: "database_load hexo = None"
    and some: "published_posts hexo \<noteq> []"
    and posts: "prepareContents rt (published_posts hexo) (getBasicFields (post_fields hexo))
        (getFieldsWithFilters (post_fields hexo)) [Generate, Load, Find_posts] = (Inr posts', t1)"
    and pages: "prepareContents rt (all_pages hexo) (getBasicFields (page_fields hexo))
        (getFieldsWithFilters (page_fields hexo)) (t1 @ [Find_pages]) = (Inr pages', t2)"
    and size: "\<forall>n. config_chunkSize hexo = Some n \<longrightarrow> 0 \<le> n"
    and init: "initIndex index = None"
  shows "\<exists>chunks outcome trace.
           algoliaCommand rt hexo index args = Some (outcome, trace) \<and>
           concat chunks = posts' @ pages' \<and>
           ClearObjects \<notin> set t2 \<and> (\<forall>c. SaveObjects c \<notin> set t2) \<and>
           (clear_requested args \<longleftrightarrow>
              truthy args \<and> (\<forall>ps. args = Obj ps \<longrightarrow> \<not> truthy (own_prop ps ''n''))) \<and>
           (clear_requested args \<longrightarrow>
              (case clearObjects index of
                 Some e \<Rightarrow>
                   outcome = Callback (Some e) \<and>
                   trace = t2 @ [Init_index, Info Clearing, ClearObjects, Info (Clear_error e)]
               | None \<Rightarrow>
                   (case List.map_filter (saveObjects index) chunks of
                      [] \<Rightarrow>
                        outcome = Completed \<and>
                        trace =
                          t2 @ [Init_index, Info Clearing, ClearObjects, Info Cleared,
                                Info Indexing] @
                          map SaveObjects chunks @ [Info (Indexed (length posts'))]
                    | e # es \<Rightarrow>
                        outcome = Callback (Some e) \<and>
                        trace =
                          t2 @ [Init_index, Info Clearing, ClearObjects, Info Cleared,
                                Info Indexing] @
                          map SaveObjects chunks @ [Info (Index_error e)]))) \<and>
           (\<not> clear_requested args \<longrightarrow>
              ClearObjects \<notin> set trace \<and>
              (case List.map_filter (saveObjects index) chunks of
                 [] \<Rightarrow>
                   outcome = Completed \<and>
                   trace =
                     t2 @ [Init_index, Info Indexing] @ map SaveObjects chunks @
                     [Info (Indexed (length posts'))]
               | e # es \<Rightarrow>
                   outcome = Callback (Some e) \<and>
                   trace =
                     t2 @ [Init_index, Info Indexing] @ map SaveObjects chunks @
                     [Info (Index_error e)]))"
proof -
  define k where "k = (case config_chunkSize hexo of
      Some n \<Rightarrow> if n \<noteq> 0 then n else 5000 | None \<Rightarrow> 5000)"
  have k_pos: "0 < k"
    using size by (auto simp: k_def split: option.splits)
  have "(0::nat) < length [posts' @ pages']" by simp
  from splitIntoChunks_returns [OF this k_pos]
  obtain chunks h' where chunks:
    "splitIntoChunks [posts' @ pages'] 0 k = Some (chunks, h')"
    "concat chunks = posts' @ pages'"
    by auto
  have run: "algoliaCommand rt hexo index args =
      Some (clear_and_upload index args chunks (length posts') (t2 @ [Init_index]))"
    using gen load some posts pages init chunks(1)
    by (simp add: algoliaCommand_def Let_def k_def)
  from prepareContents_trace [OF posts] obtain ws1
    where t1: "t1 = [Generate, Load, Find_posts] @ map Warn ws1" by blast
  from prepareContents_trace [OF pages] obtain ws2
    where t2: "t2 = (t1 @ [Find_pages]) @ map Warn ws2" by blast
  have quiet: "ClearObjects \<notin> set t2" "\<forall>c. SaveObjects c \<notin> set t2"
    using t1 t2 by auto
  note iff = clear_requested_iff [of args]
  obtain outcome trace where
    ot: "clear_and_upload index args chunks (length posts') (t2 @ [Init_index]) = (outcome, trace)"
    by (cases "clear_and_upload index args chunks (length posts') (t2 @ [Init_index])")
  with run have R: "algoliaCommand rt hexo index args = Some (outcome, trace)"
    by simp
  have A: "clear_requested args \<longrightarrow>
      (case clearObjects index of
         Some e \<Rightarrow>
           outcome = Callback (Some e) \<and>
           trace = t2 @ [Init_index, Info Clearing, ClearObjects, Info (Clear_error e)]
       | None \<Rightarrow>
           (case List.map_filter (saveObjects index) chunks of
              [] \<Rightarrow>
                outcome = Completed \<and>
                trace =
                  t2 @ [Init_index, Info Clearing, ClearObjects, Info Cleared,
                        Info Indexing] @
                  map SaveObjects chunks @ [Info (Indexed (length posts'))]
            | e # es \<Rightarrow>
                outcome = Callback (Some e) \<and>
                trace =
                  t2 @ [Init_index, Info Clearing, ClearObjects, Info Cleared,
                        Info Indexing] @
                  map SaveObjects chunks @ [Info (Index_error e)]))"
    using ot
    by (auto simp: clear_and_upload_def upload_result split: option.splits list.splits)
  have B1: "\<not> clear_requested args \<longrightarrow>
      (case List.map_filter (saveObjects index) chunks of
         [] \<Rightarrow>
           outcome = Completed \<and>
           trace =
             t2 @ [Init_index, Info Indexing] @ map SaveObjects chunks @
             [Info (Indexed (length posts'))]
       | e # es \<Rightarrow>
           outcome = Callback (Some e) \<and>
           trace =
             t2 @ [Init_index, Info Indexing] @ map SaveObjects chunks @
             [Info (Index_error e)])"
    using ot
    by (auto simp: clear_and_upload_def upload_result split: list.splits)
  have B2: "\<not> clear_requested args \<longrightarrow> ClearObjects \<notin> set trace"
    using B1 quiet(1) by (auto split: list.splits)
  from B1 B2 have B: "\<not> clear_requested args \<longrightarrow>
      ClearObjects \<notin> set trace \<and>
      (case List.map_filter (saveObjects index) chunks of
         [] \<Rightarrow>
           outcome = Completed \<and>
           trace =
             t2 @ [Init_index, Info Indexing] @ map SaveObjects chunks @
             [Info (Indexed (length posts'))]
       | e # es \<Rightarrow>
           outcome = Callback (Some e) \<and>
           trace =
             t2 @ [Init_index, Info Indexing] @ map SaveObjects chunks @
             [Info (Index_error e)])"
    by simp
  show ?thesis
    by (rule exI [of _ chunks], rule exI [of _ outcome], rule exI [of _ trace])
      (intro conjI R chunks(2) quiet iff A B)
qed

theorem algoliaCommand_no_posts_witness:
  "call_generate (sample_hexo\<lparr>published_posts := [], page_fields := [''tags'']\<rparr>) = None \<and>
   database_load (sample_hexo\<lparr>published_posts := [], page_fields := [''tags'']\<rparr>) = None \<and>
   published_posts (sample_hexo\<lparr>published_posts := [], page_fields := [''tags'']\<rparr>) = [] \<and>
   fst (prepareContents sample_runtime [sample_page] [''tags''] [] []) = Inl TypeError \<and>
   algoliaCommand sample_runtime (sample_hexo\<lparr>published_posts := [], page_fields := [''tags'']\<rparr>)
       sample_index (Obj []) =
     Some (Callback None, [Generate, Load, Find_posts, Info No_post])"
proof -
  let ?hexo = "sample_hexo\<lparr>published_posts := [], page_fields := [''tags'']\<rparr>"
  have h1: "call_generate ?hexo = None" by (simp add: sample_hexo_def)
  have h2: "database_load ?hexo = None" by (simp add: sample_hexo_def)
  have h3: "published_posts ?hexo = []" by simp
  have p: "fst (prepareContents sample_runtime [sample_page] [''tags''] [] []) = Inl TypeError"
    by code_simp
  from algoliaCommand_no_posts [OF h1 h2 h3, of sample_runtime sample_index "Obj []"] h1 h2 h3 p
  show ?thesis by simp
qed

text \<open>
  Claim C8 as stated fails: a run that is given no arguments object has no flag to read,
  so nothing suppresses the clear step, and yet it uploads both documents without issuing
  a clear request.
\<close>

theorem clear_skipped_without_arguments:
  "get_prop Undefined ''n'' = Inl TypeError \<and>
   algoliaCommand sample_runtime sample_hexo sample_index Undefined =
     Some (Completed,
       [Generate, Load, Find_posts, Find_pages, Init_index, Info Indexing,
        SaveObjects
          [[(''title'', Str ''First''), (''tags'', Arr [Str ''a'', Str ''b'']),
            (''objectID'', Str ''p1''), (''contentStrip'', Str ''hi there'')]],
        SaveObjects
          [[(''title'', Str ''About''), (''objectID'', Str ''g1''),
            (''contentTruncate'', Str ''he'')]],
        Info (Indexed 1)]) \<and>
   ClearObjects \<notin> set
       [Generate, Load, Find_posts, Find_pages, Init_index, Info Indexing,
        SaveObjects
          [[(''title'', Str ''First''), (''tags'', Arr [Str ''a'', Str ''b'']),
            (''objectID'', Str ''p1''), (''contentStrip'', Str ''hi there'')]],
        SaveObjects
          [[(''title'', Str ''About''), (''objectID'', Str ''g1''),
            (''contentTruncate'', Str ''he'')]],
        Info (Indexed 1)]"
proof -
  have "get_prop Undefined ''n'' = Inl TypeError"
    by (simp add: get_prop_def)
  moreover have "algoliaCommand sample_runtime sample_hexo sample_index Undefined =
     Some (Completed,
       [Generate, Load, Find_posts, Find_pages, Init_index, Info Indexing,
        SaveObjects
          [[(''title'', Str ''First''), (''tags'', Arr [Str ''a'', Str ''b'']),
            (''objectID'', Str ''p1''), (''contentStrip'', Str ''hi there'')]],
        SaveObjects
          [[(''title'', Str ''About''), (''objectID'', Str ''g1''),
            (''contentTruncate'', Str ''he'')]],
        Info (Indexed 1)])"
    by code_simp
  ultimately show ?thesis by simp
qed

theorem algoliaCommand_clear_then_upload_witness:
  "call_generate sample_hexo = None \<and>
   database_load sample_hexo = None \<and>
   published_posts sample_hexo \<noteq> [] \<and>
   prepareContents sample_runtime (published_posts sample_hexo)
       (getBasicFields (post_fields sample_hexo)) (getFieldsWithFilters (post_fields sample_hexo))
       [Generate, Load, Find_posts] =
     (Inr [[(''title'', Str ''First''), (''tags'', Arr [Str ''a'', Str ''b'']),
            (''objectID'', Str ''p1''), (''contentStrip'', Str ''hi there'')]],
      [Generate, Load, Find_posts]) \<and>
   prepareContents sample_runtime (all_pages sample_hexo)
       (getBasicFields (page_fields sample_hexo)) (getFieldsWithFilters (page_fields sample_hexo))
       ([Generate, Load, Find_posts] @ [Find_pages]) =
     (Inr [[(''title'', Str ''About''), (''objectID'', Str ''g1''),
            (''contentTruncate'', Str ''he'')]],
      [Generate, Load, Find_posts, Find_pages]) \<and>
   config_chunkSize sample_hexo = Some 1 \<and>
   initIndex sample_index = None \<and>
   clear_requested (Obj []) \<and>
   \<not> clear_requested (Obj [(''n'', Bool True)]) \<and>
   \<not> clear_requested Undefined \<and>
   algoliaCommand sample_runtime sample_hexo sample_index (Obj []) =
     Some (Completed,
       [Generate, Load, Find_posts, Find_pages, Init_index, Info Clearing, ClearObjects,
        Info Cleared, Info Indexing,
        SaveObjects
          [[(''title'', Str ''First''), (''tags'', Arr [Str ''a'', Str ''b'']),
            (''objectID'', Str ''p1''), (''contentStrip'', Str ''hi there'')]],
        SaveObjects
          [[(''title'', Str ''About''), (''objectID'', Str ''g1''),
            (''contentTruncate'', Str ''he'')]],
        Info (Indexed 1)]) \<and>
   algoliaCommand sample_runtime sample_hexo
       (sample_index\<lparr>clearObjects := Some (External ''unreachable'')\<rparr>) (Obj []) =
     Some (Callback (Some (External ''unreachable'')),
       [Generate, Load, Find_posts, Find_pages, Init_index, Info Clearing, ClearObjects,
        Info (Clear_error (External ''unreachable''))]) \<and>
   algoliaCommand sample_runtime sample_hexo sample_index (Obj [(''n'', Bool True)]) =
     Some (Completed,
       [Generate, Load, Find_posts, Find_pages, Init_index, Info Indexing,
        SaveObjects
          [[(''title'', Str ''First''), (''tags'', Arr [Str ''a'', Str ''b'']),
            (''objectID'', Str ''p1''), (''contentStrip'', Str ''hi there'')]],
        SaveObjects
          [[(''title'', Str ''About''), (''objectID'', Str ''g1''),
            (''contentTruncate'', Str ''he'')]],
        Info (Indexed 1)]) \<and>
   ClearObjects \<notin> set
       [Generate, Load, Find_posts, Find_pages, Init_index, Info Indexing,
        SaveObjects
          [[(''title'', Str ''First''), (''tags'', Arr [Str ''a'', Str ''b'']),
            (''objectID'', Str ''p1''), (''contentStrip'', Str ''hi there'')]],
        SaveObjects
          [[(''title'', Str ''About''), (''objectID'', Str ''g1''),
            (''contentTruncate'', Str ''he'')]],
        Info (Indexed 1)] \<and>
   algoliaCommand sample_runtime sample_hexo
       (sample_index\<lparr>saveObjects := (\<lambda>content. Some (External ''quota''))\<rparr>)
       (Obj [(''n'', Bool True)]) =
     Some (Callback (Some (External ''quota'')),
       [Generate, Load, Find_posts, Find_pages, Init_index, Info Indexing,
        SaveObjects
          [[(''title'', Str ''First''), (''tags'', Arr [Str ''a'', Str ''b'']),
            (''objectID'', Str ''p1''), (''contentStrip'', Str ''hi there'')]],
        SaveObjects
          [[(''title'', Str ''About''), (''objectID'', Str ''g1''),
            (''contentTruncate'', Str ''he'')]],
        Info (Index_error (External ''quota''))])"
proof -
  have h1: "call_generate sample_hexo = None"
    by (simp add: sample_hexo_def)
  have h2: "database_load sample_hexo = None"
    by (simp add: sample_hexo_def)
  have h3: "published_posts sample_hexo \<noteq> []"
    by (simp add: sample_hexo_def)
  have h4: "prepareContents sample_runtime (published_posts sample_hexo)
       (getBasicFields (post_fields sample_hexo)) (getFieldsWithFilters (post_fields sample_hexo))
       [Generate, Load, Find_posts] =
     (Inr [[(''title'', Str ''First''), (''tags'', Arr [Str ''a'', Str ''b'']),
            (''objectID'', Str ''p1''), (''contentStrip'', Str ''hi there'')]],
      [Generate, Load, Find_posts])"
    by code_simp
  have h5: "prepareContents sample_runtime (all_pages sample_hexo)
       (getBasicFields (page_fields sample_hexo)) (getFieldsWithFilters (page_fields sample_hexo))
       ([Generate, Load, Find_posts] @ [Find_pages]) =
     (Inr [[(''title'', Str ''About''), (''objectID'', Str ''g1''),
            (''contentTruncate'', Str ''he'')]],
      [Generate, Load, Find_posts, Find_pages])"
    by code_simp
  have c: "config_chunkSize sample_hexo = Some 1"
    by (simp add: sample_hexo_def)
  have h7: "initIndex sample_index = None"
    by (simp add: sample_index_def)
  have r1: "clear_requested (Obj [])"
    by code_simp
  have r2: "\<not> clear_requested (Obj [(''n'', Bool True)])"
    by code_simp
  have r3: "\<not> clear_requested Undefined"
    by code_simp
  have v1: "algoliaCommand sample_runtime sample_hexo sample_index (Obj []) =
     Some (Completed,
       [Generate, Load, Find_posts, Find_pages, Init_index, Info Clearing, ClearObjects,
        Info Cleared, Info Indexing,
        SaveObjects
          [[(''title'', Str ''First''), (''tags'', Arr [Str ''a'', Str ''b'']),
            (''objectID'', Str ''p1''), (''contentStrip'', Str ''hi there'')]],
        SaveObjects
          [[(''title'', Str ''About''), (''objectID'', Str ''g1''),
            (''contentTruncate'', Str ''he'')]],
        Info (Indexed 1)])"
    by code_simp
  have v2: "algoliaCommand sample_runtime sample_hexo
       (sample_index\<lparr>clearObjects := Some (External ''unreachable'')\<rparr>) (Obj []) =
     Some (Callback (Some (External ''unreachable'')),
       [Generate, Load, Find_posts, Find_pages, Init_index, Info Clearing, ClearObjects,
        Info (Clear_error (External ''unreachable''))])"
    by code_simp
  have v3: "algoliaCommand sample_runtime sample_hexo sample_index (Obj [(''n'', Bool True)]) =
     Some (Completed,
       [Generate, Load, Find_posts, Find_pages, Init_index, Info Indexing,
        SaveObjects
          [[(''title'', Str ''First''), (''tags'', Arr [Str ''a'', Str ''b'']),
            (''objectID'', Str ''p1''), (''contentStrip'', Str ''hi there'')]],
        SaveObjects
          [[(''title'', Str ''About''), (''objectID'', Str ''g1''),
            (''contentTruncate'', Str ''he'')]],
        Info (Indexed 1)])"
    by code_simp
  have v4: "algoliaCommand sample_runtime sample_hexo
       (sample_index\<lparr>saveObjects := (\<lambda>content. Some (External ''quota''))\<rparr>)
       (Obj [(''n'', Bool True)]) =
     Some (Callback (Some (External ''quota'')),
       [Generate, Load, Find_posts, Find_pages, Init_index, Info Indexing,
        SaveObjects
          [[(''title'', Str ''First''), (''tags'', Arr [Str ''a'', Str ''b'']),
            (''objectID'', Str ''p1''), (''contentStrip'', Str ''hi there'')]],
        SaveObjects
          [[(''title'', Str ''About''), (''objectID'', Str ''g1''),
            (''contentTruncate'', Str ''he'')]],
        Info (Index_error (External ''quota''))])"
    by code_simp
  from c have h6: "\<forall>n. config_chunkSize sample_hexo = Some n \<longrightarrow> 0 \<le> n"
    by simp
  from algoliaCommand_clear_then_upload [OF h1 h2 h3 h4 h5 h6 h7, of "Obj [(''n'', Bool True)]"] r2
  obtain outcome trace where
    "algoliaCommand sample_runtime sample_hexo sample_index (Obj [(''n'', Bool True)]) =
       Some (outcome, trace)"
    and "ClearObjects \<notin> set trace"
    by blast
  with v3 have nc: "ClearObjects \<notin> set
       [Generate, Load, Find_posts, Find_pages, Init_index, Info Indexing,
        SaveObjects
          [[(''title'', Str ''First''), (''tags'', Arr [Str ''a'', Str ''b'']),
            (''objectID'', Str ''p1''), (''contentStrip'', Str ''hi there'')]],
        SaveObjects
          [[(''title'', Str ''About''), (''objectID'', Str ''g1''),
            (''contentTruncate'', Str ''he'')]],
        Info (Indexed 1)]"
    by simp
  show ?thesis
    by (intro conjI) fact+
qed

end
